theory Spec2Isabelle
  imports Main "HOL-Library.AList"
begin

section \<open>Python values used by the text processor\<close>

text \<open>
  The development embeds the class \<open>SciTextProcessor\<close> of
  \<open>modules/preprocessing.py\<close>. A Python \<open>str\<close> is a \<open>string\<close>; the model covers texts
  whose code points are below 256, one \<open>char\<close> per code point. A Python \<open>dict\<close> is an
  association list in insertion order with distinct keys: \<open>map_of\<close> reads a key and
  \<open>AList.update\<close> assigns one (replacing the value in place, or appending a new key).
  Every exception the code can raise is a value of \<open>py_error\<close>; \<open>Unmodelled\<close> marks the
  two places where the model stops: a regular expression built from an abbreviation that
  contains regex syntax, and a replacement template that contains a backslash.
\<close>

datatype py_error =
  IndexError | KeyError | ValueError | ZeroDivisionError | AssertionError | AttributeError
  | Unmodelled

text \<open>Slice bounds: a negative bound counts from the end, and every bound is clamped.\<close>

definition py_bound :: "nat \<Rightarrow> int \<Rightarrow> nat" where
  "py_bound n k = (if k < 0 then nat (int n + k) else min n (nat k))"

text \<open>\<open>xs[:k]\<close>, \<open>xs[k:]\<close> and \<open>xs[a:b]\<close>.\<close>

definition py_upto :: "'a list \<Rightarrow> int \<Rightarrow> 'a list" where
  "py_upto xs k = take (py_bound (length xs) k) xs"

definition py_from :: "'a list \<Rightarrow> int \<Rightarrow> 'a list" where
  "py_from xs k = drop (py_bound (length xs) k) xs"

definition py_slice :: "'a list \<Rightarrow> int \<Rightarrow> int \<Rightarrow> 'a list" where
  "py_slice xs a b =
     take (py_bound (length xs) b - py_bound (length xs) a) (drop (py_bound (length xs) a) xs)"

text \<open>\<open>xs[k]\<close>: a negative index counts from the end; out of range raises.\<close>

definition py_get :: "'a list \<Rightarrow> int \<Rightarrow> py_error + 'a" where
  "py_get xs k =
     (let n = int (length xs); j = (if k < 0 then n + k else k)
      in if 0 \<le> j \<and> j < n then Inr (xs ! nat j) else Inl IndexError)"

text \<open>\<open>np.argmin\<close>: the first index of the least element; an empty sequence raises.\<close>

fun argmin_from :: "int list \<Rightarrow> nat \<Rightarrow> int \<Rightarrow> nat \<Rightarrow> nat" where
  "argmin_from [] i best besti = besti"
| "argmin_from (x # xs) i best besti =
     (if x < best then argmin_from xs (Suc i) x i else argmin_from xs (Suc i) best besti)"

definition argmin :: "int list \<Rightarrow> py_error + nat" where
  "argmin xs = (case xs of [] \<Rightarrow> Inl ValueError | x # rest \<Rightarrow> Inr (argmin_from rest 1 x 0))"

text \<open>\<open>' '.join(words)\<close>.\<close>

fun join_spaces :: "string list \<Rightarrow> string" where
  "join_spaces [] = []"
| "join_spaces [w] = w"
| "join_spaces (w # ws) = w @ CHR '' '' # join_spaces ws"

subsection \<open>Characters\<close>

text \<open>The whitespace class \<open>\s\<close> of a \<open>str\<close> pattern, on the code points below 256.\<close>

definition is_space :: "char \<Rightarrow> bool" where
  "is_space c = ((of_char c :: nat) \<in> set [9, 10, 11, 12, 13, 28, 29, 30, 31, 32, 133, 160])"

definition is_digit :: "char \<Rightarrow> bool" where
  "is_digit c = (48 \<le> (of_char c :: nat) \<and> (of_char c :: nat) \<le> 57)"

text \<open>\<open>str.lower\<close> on the code points below 256: A-Z and the accented capitals.\<close>

definition lower_char :: "char \<Rightarrow> char" where
  "lower_char c =
     (let n = (of_char c :: nat)
      in if (65 \<le> n \<and> n \<le> 90) \<or> (192 \<le> n \<and> n \<le> 222 \<and> n \<noteq> 215)
         then char_of (n + 32) else c)"

definition lower :: "string \<Rightarrow> string" where
  "lower s = map lower_char s"

text \<open>\<open>name.replace(' ', '_')\<close>.\<close>

definition replace_spaces :: "string \<Rightarrow> string" where
  "replace_spaces s = map (\<lambda>c. if c = CHR '' '' then CHR ''_'' else c) s"

section \<open>Element tables and the two entity patterns\<close>

definition ELEMENTS :: "string list" where
  "ELEMENTS =
    [''H'', ''He'', ''Li'', ''Be'', ''B'', ''C'', ''N'', ''O'', ''F'', ''Ne'', ''Na'',
     ''Mg'', ''Al'', ''Si'', ''P'', ''S'', ''Cl'', ''Ar'', ''K'', ''Ca'', ''Sc'', ''Ti'',
     ''V'', ''Cr'', ''Mn'', ''Fe'', ''Co'', ''Ni'', ''Cu'', ''Zn'', ''Ga'', ''Ge'', ''As'',
     ''Se'', ''Br'', ''Kr'', ''Rb'', ''Sr'', ''Y'', ''Zr'', ''Nb'', ''Mo'', ''Tc'', ''Ru'',
     ''Rh'', ''Pd'', ''Ag'', ''Cd'', ''In'', ''Sn'', ''Sb'', ''Te'', ''I'', ''Xe'', ''Cs'',
     ''Ba'', ''La'', ''Ce'', ''Pr'', ''Nd'', ''Pm'', ''Sm'', ''Eu'', ''Gd'', ''Tb'', ''Dy'',
     ''Ho'', ''Er'', ''Tm'', ''Yb'', ''Lu'', ''Hf'', ''Ta'', ''W'', ''Re'', ''Os'', ''Ir'',
     ''Pt'', ''Au'', ''Hg'', ''Tl'', ''Pb'', ''Bi'', ''Po'', ''At'', ''Rn'', ''Fr'', ''Ra'',
     ''Ac'', ''Th'', ''Pa'', ''U'', ''Np'', ''Pu'', ''Am'', ''Cm'', ''Bk'', ''Cf'', ''Es'',
     ''Fm'', ''Md'', ''No'', ''Lr'', ''Rf'', ''Db'', ''Sg'', ''Bh'', ''Hs'', ''Mt'', ''Ds'',
     ''Rg'', ''Cn'', ''Nh'', ''Fl'', ''Mc'', ''Lv'', ''Ts'', ''Og'', ''Uue'']"

definition ELEMENT_NAMES :: "string list" where
  "ELEMENT_NAMES =
    [''hydrogen'', ''helium'', ''lithium'', ''beryllium'', ''boron'', ''carbon'',
     ''nitrogen'', ''oxygen'', ''fluorine'', ''neon'', ''sodium'', ''magnesium'',
     ''aluminium'', ''silicon'', ''phosphorus'', ''sulfur'', ''chlorine'', ''argon'',
     ''potassium'', ''calcium'', ''scandium'', ''titanium'', ''vanadium'', ''chromium'',
     ''manganese'', ''iron'', ''cobalt'', ''nickel'', ''copper'', ''zinc'', ''gallium'',
     ''germanium'', ''arsenic'', ''selenium'', ''bromine'', ''krypton'', ''rubidium'',
     ''strontium'', ''yttrium'', ''zirconium'', ''niobium'', ''molybdenum'', ''technetium'',
     ''ruthenium'', ''rhodium'', ''palladium'', ''silver'', ''cadmium'', ''indium'',
     ''tin'', ''antimony'', ''tellurium'', ''iodine'', ''xenon'', ''cesium'', ''barium'',
     ''lanthanum'', ''cerium'', ''praseodymium'', ''neodymium'', ''promethium'',
     ''samarium'', ''europium'', ''gadolinium'', ''terbium'', ''dysprosium'', ''holmium'',
     ''erbium'', ''thulium'', ''ytterbium'', ''lutetium'', ''hafnium'', ''tantalum'',
     ''tungsten'', ''rhenium'', ''osmium'', ''iridium'', ''platinum'', ''gold'',
     ''mercury'', ''thallium'', ''lead'', ''bismuth'', ''polonium'', ''astatine'',
     ''radon'', ''francium'', ''radium'', ''actinium'', ''thorium'', ''protactinium'',
     ''uranium'', ''neptunium'', ''plutonium'', ''americium'', ''curium'', ''berkelium'',
     ''californium'', ''einsteinium'', ''fermium'', ''mendelevium'', ''nobelium'',
     ''lawrencium'', ''rutherfordium'', ''dubnium'', ''seaborgium'', ''bohrium'',
     ''hassium'', ''meitnerium'', ''darmstadtium'', ''roentgenium'', ''copernicium'',
     ''nihonium'', ''flerovium'', ''moscovium'', ''livermorium'', ''tennessine'',
     ''oganesson'', ''ununennium'']"

text \<open>\<open>self.element_dict\<close>, filled by assignment over \<open>zip(ELEMENTS, ELEMENT_NAMES)\<close>.\<close>

definition element_dict :: "(string \<times> string) list" where
  "element_dict = fold (\<lambda>(element, name) d. AList.update element name d)
                       (zip ELEMENTS ELEMENT_NAMES) []"

text \<open>
  In both patterns \<open>$\<close> matches at the end of the text and also just before a final
  newline, so a match is decided on the text without that newline.
\<close>

definition strip_final_newline :: "string \<Rightarrow> string" where
  "strip_final_newline t = (if t \<noteq> [] \<and> last t = CHR 0x0A then butlast t else t)"

text \<open>One alternative of \<open>FORMULA_REGX\<close>: an element symbol or a digit.\<close>

definition formula_unit :: "string \<Rightarrow> bool" where
  "formula_unit u = (u \<in> set ELEMENTS \<or> (case u of [c] \<Rightarrow> is_digit c | _ \<Rightarrow> False))"

text \<open>
  A text is a sequence of alternatives when some split into pieces of one to three
  characters (the longest symbol has three) has every piece an alternative; the
  backtracking matcher finds a split whenever one exists.
\<close>

fun formula_units :: "string \<Rightarrow> bool" where
  "formula_units [] = True"
| "formula_units (a # as) =
     ((formula_unit [a] \<and> formula_units as) \<or>
      (case as of [] \<Rightarrow> False
       | b # bs \<Rightarrow>
           (formula_unit [a, b] \<and> formula_units bs) \<or>
           (case bs of [] \<Rightarrow> False
            | c # cs \<Rightarrow> formula_unit [a, b, c] \<and> formula_units cs)))"

text \<open>\<open>FORMULA_REGX.match(t)\<close> succeeds: \<open>^(H|He|...|[0-9])+$\<close>.\<close>

definition formula_match :: "string \<Rightarrow> bool" where
  "formula_match t = (strip_final_newline t \<noteq> [] \<and> formula_units (strip_final_newline t))"

text \<open>The valence alternatives \<open>[IV|iv]|[Vv]?[Ii]{0,3}\<close>.\<close>

definition i_run :: "string \<Rightarrow> bool" where
  "i_run r = (length r \<le> 3 \<and> list_all (\<lambda>c. c = CHR ''I'' \<or> c = CHR ''i'') r)"

definition valence_numeral :: "string \<Rightarrow> bool" where
  "valence_numeral r =
     (r \<in> set [''I'', ''V'', ''|'', ''i'', ''v''] \<or> i_run r \<or>
      (case r of [] \<Rightarrow> False | c # cs \<Rightarrow> (c = CHR ''V'' \<or> c = CHR ''v'') \<and> i_run cs))"

text \<open>
  \<open>VALENCE_REGX.match(t)\<close>: \<open>^(H|He|...)(\(([IV|iv]|[Vv]?[Ii]{0,3})\))$\<close>. No element
  symbol holds a parenthesis, so group 1 is the text before the first \<open>(\<close> and group 2
  is the rest. The result is \<open>(group(1), group(2))\<close>.
\<close>

definition valence_match :: "string \<Rightarrow> (string \<times> string) option" where
  "valence_match t =
     (let core = strip_final_newline t;
          elem = takeWhile (\<lambda>c. c \<noteq> CHR ''('') core;
          rest = dropWhile (\<lambda>c. c \<noteq> CHR ''('') core
      in if elem \<in> set ELEMENTS \<and> 2 \<le> length rest \<and> last rest = CHR '')'' \<and>
            valence_numeral (butlast (tl rest))
         then Some (elem, rest) else None)"

text \<open>Lines 351-356: an element with a valence gets the element's name.\<close>

definition valence_rewrite :: "string \<Rightarrow> py_error + string" where
  "valence_rewrite t =
     (case valence_match t of
        None \<Rightarrow> Inr t
      | Some (elem, valence) \<Rightarrow>
          (case map_of element_dict elem of
             None \<Rightarrow> Inl KeyError
           | Some elem_name \<Rightarrow> Inr (elem_name @ valence)))"

text \<open>Lines 359-362: a formula keeps its case, anything else is lowercased.\<close>

definition mention_name :: "string \<Rightarrow> string" where
  "mention_name t = (if formula_match t then t else lower t)"

section \<open>The external collaborators\<close>

text \<open>
  The chemical entity recognizer and the abbreviation extractor (\<open>Document(text)\<close>), the
  PubChem lookup, the sentence splitter, the word tokenizer and the materials text
  processor are libraries outside the repository. They are parameters of the model, and
  every theorem holds for all of them.
  \<^item> A recognized entity \<open>cem\<close> is \<open>(cem.text, cem.start, cem.end)\<close>.
  \<^item> An abbreviation definition is \<open>(abbv[0], abbv[1], abbv[-1])\<close>: the tokens of the short
    form, the tokens of the long form and the entity type, which may be \<open>None\<close>.
  \<^item> \<open>Document(text)\<close> gives \<open>(doc.abbreviation_definitions, doc.cems)\<close>.
  \<^item> A PubChem compound is \<open>(c.cid, c.iupac_name)\<close>. The lookup service answers the
    \<open>i\<close>-th attempt for a name with a list of compounds, or stalls past the alarm.
\<close>

type_synonym cem = "string \<times> int \<times> int"
type_synonym abbv = "string list \<times> string list \<times> string option"
type_synonym document = "string \<Rightarrow> abbv list \<times> cem list"
type_synonym compound = "int \<times> string option"

datatype reply = Timeout | Compounds "compound list"

type_synonym pubchem = "string \<Rightarrow> nat \<Rightarrow> reply"

section \<open>The processor's state\<close>

text \<open>
  An entity of a text before rewriting is \<open>(name, start, end)\<close>; after rewriting it is
  \<open>(replacement_name, start, end, name)\<close>. A value of \<open>entity_to_cid\<close> is the pair
  \<open>[cid, iupac_name]\<close>. \<open>clean_texts\<close> and \<open>dropped_idxs\<close> exist only on a processor of
  type \<open>'abstract'\<close>.
\<close>

type_synonym mention = "string \<times> int \<times> int"
type_synonym entity_record = "string \<times> int \<times> int \<times> string"
type_synonym cid_entry = "int option \<times> string option"

datatype tokens = Flat "string list" | BySentence "string list list"
datatype token_idxs = FlatIdxs "(string \<times> int) list" | SentenceIdxs "(string \<times> int) list list"

record processor =
  clean_texts :: "string list option"
  dropped_idxs :: "nat list option"
  normalized_texts :: "string list"
  entity_counts :: "(string \<times> int) list"
  entities_per_text :: "(nat \<times> entity_record list) list"
  entity_to_cid :: "(string \<times> cid_entry) list"
  entity_to_synonyms :: "(string \<times> string list) list"
  tokenized_texts :: "(nat \<times> tokens) list"
  entity_idxs :: "(nat \<times> token_idxs) list"
  timedout_entities :: "string list"

section \<open>Abbreviation removal\<close>

text \<open>Lines 496-502: only \<open>+\<close> is escaped in the abbreviation.\<close>

definition escape_abbv :: "string \<Rightarrow> string" where
  "escape_abbv s = concat (map (\<lambda>c. if c = CHR ''+'' then [CHR 0x5C, c] else [c]) s)"

definition cem_starts :: "cem list \<Rightarrow> string \<Rightarrow> int list" where
  "cem_starts cems name = [start. (t, start, stop) \<leftarrow> cems, t = name]"

definition cem_ends :: "cem list \<Rightarrow> string \<Rightarrow> int list" where
  "cem_ends cems name = [stop. (t, start, stop) \<leftarrow> cems, t = name]"

text \<open>Lines 508-511: the earliest start of a matching entity, and 0 when none matches.\<close>

definition low_idx_of :: "int list \<Rightarrow> int" where
  "low_idx_of starts = (case argmin starts of Inl e \<Rightarrow> 0 | Inr k \<Rightarrow> starts ! k)"

text \<open>
  Lines 490-512: \<open>abbv_dict\<close> maps the escaped abbreviation to \<open>[long form, low_idx]\<close>.
  An abbreviation whose entity type is \<open>None\<close> is skipped.
\<close>

fun build_abbv_dict ::
  "cem list \<Rightarrow> abbv list \<Rightarrow> (string \<times> string \<times> int) list \<Rightarrow> py_error + (string \<times> string \<times> int) list"
where
  "build_abbv_dict cems [] d = Inr d"
| "build_abbv_dict cems ((short, long, tag) # rest) d =
     (case tag of
        None \<Rightarrow> build_abbv_dict cems rest d
      | Some ty \<Rightarrow>
          (case short of
             [] \<Rightarrow> Inl IndexError
           | first # others \<Rightarrow>
               build_abbv_dict cems rest
                 (AList.update (escape_abbv first)
                    (join_spaces long, low_idx_of (cem_starts cems (escape_abbv first))) d)))"

text \<open>
  Line 540 builds the pattern \<open>([\s])ABBV([.,;\s]|$)\<close> from the escaped abbreviation.
  The model covers an abbreviation that, apart from the escaped \<open>\+\<close>, holds none of the
  characters of regex syntax; \<open>pattern_literal\<close> gives the text such a pattern matches.
\<close>

definition regex_syntax :: "char \<Rightarrow> bool" where
  "regex_syntax c = (c \<in> set ''.^$*+?{}[]|()'' \<or> c = CHR 0x5C)"

fun pattern_literal :: "string \<Rightarrow> string option" where
  "pattern_literal [] = Some []"
| "pattern_literal (c # cs) =
     (if c = CHR 0x5C then
        (case cs of
           [] \<Rightarrow> None
         | d # ds \<Rightarrow> if d = CHR ''+'' then map_option ((#) d) (pattern_literal ds) else None)
      else if regex_syntax c then None
      else map_option ((#) c) (pattern_literal cs))"

definition is_delim :: "char \<Rightarrow> bool" where
  "is_delim c = (c \<in> set ''.,;'' \<or> is_space c)"

text \<open>
  \<open>re.sub\<close> with that pattern and the template \<open>' FULL\2'\<close>: the text is scanned from the
  left; a whitespace character followed by the abbreviation and then by a delimiter or
  the end of the text is replaced by a space, the long form and the delimiter, and the
  scan goes on after the delimiter.
\<close>

function re_sub_abbv :: "string \<Rightarrow> string \<Rightarrow> string \<Rightarrow> string" where
  "re_sub_abbv lit full [] = []"
| "re_sub_abbv lit full (c # cs) =
     (if is_space c \<and> take (length lit) cs = lit then
        (case drop (length lit) cs of
           [] \<Rightarrow> CHR '' '' # full
         | d # rest \<Rightarrow>
             if is_delim d then CHR '' '' # full @ d # re_sub_abbv lit full rest
             else c # re_sub_abbv lit full cs)
      else c # re_sub_abbv lit full cs)"
  by pat_completeness auto
termination
proof (relation "measure (\<lambda>(lit, full, t). length t)")
  fix lit full :: string and c d :: char and cs rest :: string
  assume "drop (length lit) cs = d # rest"
  then have "length (drop (length lit) cs) = Suc (length rest)" by simp
  then show "((lit, full, rest), lit, full, c # cs) \<in> measure (\<lambda>(lit, full, t). length t)"
    by simp
qed auto

definition substitute_abbv :: "string \<Rightarrow> string \<Rightarrow> string \<Rightarrow> py_error + string" where
  "substitute_abbv abbv non_abbv text =
     (case pattern_literal abbv of
        None \<Rightarrow> Inl Unmodelled
      | Some lit \<Rightarrow>
          if CHR 0x5C \<in> set non_abbv then Inl Unmodelled
          else Inr (re_sub_abbv lit non_abbv text))"

text \<open>
  Lines 526-528 and 535-537: when the characters around the earliest entity are
  \<open>(\<close> and \<open>)\<close>, the text from two before its start to one after its end is cut out.
\<close>

definition delete_definition :: "string \<Rightarrow> int \<Rightarrow> int \<Rightarrow> int \<Rightarrow> py_error + string \<times> int" where
  "delete_definition text index_change start stop =
     (case py_get text (start + index_change - 1) of
        Inl e \<Rightarrow> Inl e
      | Inr a \<Rightarrow>
          (case py_get text (stop + index_change) of
             Inl e \<Rightarrow> Inl e
           | Inr b \<Rightarrow>
               if [a, b] = ''()''
               then Inr (py_upto text (start - 2 + index_change) @
                         py_from text (stop + 1 + index_change),
                         index_change + (start - stop - 3))
               else Inr (text, index_change)))"

text \<open>Lines 516-542: the body of the loop over the sorted abbreviations.\<close>

fun abbv_step ::
  "cem list \<Rightarrow> string \<times> int \<Rightarrow> string \<times> string \<times> int \<Rightarrow> py_error + string \<times> int"
where
  "abbv_step cems (text, index_change) (abbv, non_abbv, low) =
     (if low \<noteq> 0 then
        (case (if length (cem_starts cems abbv) = 1 then Inr 0
               else argmin (cem_starts cems abbv)) of
           Inl e \<Rightarrow> Inl e
         | Inr k \<Rightarrow>
             (case delete_definition text index_change
                     (cem_starts cems abbv ! k) (cem_ends cems abbv ! k) of
                Inl e \<Rightarrow> Inl e
              | Inr (text', index_change') \<Rightarrow>
                  (case substitute_abbv abbv non_abbv text' of
                     Inl e \<Rightarrow> Inl e
                   | Inr text'' \<Rightarrow> Inr (text'', index_change'))))
      else Inr (text, index_change))"

fun abbv_loop ::
  "cem list \<Rightarrow> (string \<times> string \<times> int) list \<Rightarrow> string \<times> int \<Rightarrow> py_error + string \<times> int"
where
  "abbv_loop cems [] acc = Inr acc"
| "abbv_loop cems (entry # rest) acc =
     (case abbv_step cems acc entry of
        Inl e \<Rightarrow> Inl e
      | Inr acc' \<Rightarrow> abbv_loop cems rest acc')"

text \<open>Line 513 sorts the dictionary by \<open>low_idx\<close>; Python's sort is stable.\<close>

definition remove_abbreviations :: "document \<Rightarrow> string \<Rightarrow> py_error + string" where
  "remove_abbreviations doc text =
     (let (abbvs, cems) = doc text
      in if 0 < length abbvs then
           (case build_abbv_dict cems abbvs [] of
              Inl e \<Rightarrow> Inl e
            | Inr abbv_dict \<Rightarrow>
                (case abbv_loop cems (sort_key (\<lambda>(abbv, non_abbv, low). low) abbv_dict)
                        (text, 0) of
                   Inl e \<Rightarrow> Inl e
                 | Inr (text', index_change) \<Rightarrow> Inr text'))
         else Inr text)"

section \<open>Entity resolution\<close>

text \<open>
  \<open>search_pubchem\<close>: up to \<open>attempts\<close> lookups, each cut off by the alarm. The first
  answer is returned; when every attempt stalls the name is recorded as timed out and the
  result is the empty list.
\<close>

fun search_attempt :: "pubchem \<Rightarrow> string \<Rightarrow> nat \<Rightarrow> nat \<Rightarrow> compound list option" where
  "search_attempt pcp name i 0 = None"
| "search_attempt pcp name i (Suc n) =
     (case pcp name i of
        Compounds c \<Rightarrow> Some c
      | Timeout \<Rightarrow> search_attempt pcp name (Suc i) n)"

definition search_pubchem ::
  "pubchem \<Rightarrow> string \<Rightarrow> nat \<Rightarrow> processor \<Rightarrow> compound list \<times> processor"
where
  "search_pubchem pcp name attempts st =
     (case search_attempt pcp name 0 attempts of
        Some c \<Rightarrow> (c, st)
      | None \<Rightarrow> ([], st\<lparr>timedout_entities := timedout_entities st @ [name]\<rparr>))"

text \<open>The key of \<open>entity_counts\<close> for a name: its IUPAC name when it has one.\<close>

definition count_key :: "string \<Rightarrow> cid_entry \<Rightarrow> string" where
  "count_key name entry = (case snd entry of None \<Rightarrow> name | Some iupac_name \<Rightarrow> iupac_name)"

text \<open>Lines 371-387: the name was not in \<open>entity_to_cid\<close> and has been looked up.\<close>

definition register_lookup :: "string \<Rightarrow> compound list \<Rightarrow> processor \<Rightarrow> processor" where
  "register_lookup name c st =
     (case c of
        [] \<Rightarrow>
          st\<lparr>entity_to_cid := AList.update name (None, None) (entity_to_cid st),
             entity_counts := AList.update name 1 (entity_counts st)\<rparr>
      | (cid, iupac) # others \<Rightarrow>
          (case iupac of
             Some iupac_name \<Rightarrow>
               st\<lparr>entity_to_cid :=
                    AList.update name (Some cid, Some iupac_name) (entity_to_cid st),
                  entity_to_synonyms :=
                    (case map_of (entity_to_synonyms st) iupac_name of
                       None \<Rightarrow> AList.update iupac_name [name] (entity_to_synonyms st)
                     | Some synonyms \<Rightarrow>
                         AList.update iupac_name (synonyms @ [name]) (entity_to_synonyms st)),
                  entity_counts := AList.update iupac_name 1 (entity_counts st)\<rparr>
           | None \<Rightarrow>
               st\<lparr>entity_to_cid := AList.update name (Some cid, None) (entity_to_cid st),
                  entity_counts := AList.update name 1 (entity_counts st)\<rparr>))"

text \<open>Lines 389-392: the name is in \<open>entity_to_cid\<close>; \<open>+= 1\<close> on a missing count raises.\<close>

definition increment_count :: "string \<Rightarrow> processor \<Rightarrow> py_error + processor" where
  "increment_count key st =
     (case map_of (entity_counts st) key of
        None \<Rightarrow> Inl KeyError
      | Some n \<Rightarrow> Inr (st\<lparr>entity_counts := AList.update key (n + 1) (entity_counts st)\<rparr>))"

text \<open>Lines 350-392: the body of the loop over the recognized entities of one text.\<close>

fun resolve_cem ::
  "pubchem \<Rightarrow> nat \<Rightarrow> processor \<times> mention list \<Rightarrow> cem \<Rightarrow> py_error + processor \<times> mention list"
where
  "resolve_cem pcp attempts (st, entity_list) (cem_text, cem_start, cem_end) =
     (case valence_rewrite cem_text of
        Inl e \<Rightarrow> Inl e
      | Inr t \<Rightarrow>
          (case map_of (entity_to_cid st) (mention_name t) of
             None \<Rightarrow>
               (case search_pubchem pcp (mention_name t) attempts st of
                  (c, st') \<Rightarrow>
                    Inr (register_lookup (mention_name t) c st',
                         entity_list @ [(mention_name t, cem_start, cem_end)]))
           | Some entry \<Rightarrow>
               (case increment_count (count_key (mention_name t) entry) st of
                  Inl e \<Rightarrow> Inl e
                | Inr st' \<Rightarrow> Inr (st', entity_list @ [(mention_name t, cem_start, cem_end)]))))"

fun resolve_cems ::
  "pubchem \<Rightarrow> nat \<Rightarrow> cem list \<Rightarrow> processor \<times> mention list \<Rightarrow> py_error + processor \<times> mention list"
where
  "resolve_cems pcp attempts [] acc = Inr acc"
| "resolve_cems pcp attempts (cem # cems) acc =
     (case resolve_cem pcp attempts acc cem of
        Inl e \<Rightarrow> Inl e
      | Inr acc' \<Rightarrow> resolve_cems pcp attempts cems acc')"

section \<open>Rewriting a text with index tracking\<close>

text \<open>Lines 400-403: the name that replaces a mention.\<close>

definition replacement_name :: "(string \<times> cid_entry) list \<Rightarrow> string \<Rightarrow> py_error + string" where
  "replacement_name e2c name =
     (case map_of e2c name of
        None \<Rightarrow> Inl KeyError
      | Some entry \<Rightarrow> Inr (count_key name entry))"

definition bold_on :: string where "bold_on = CHR 0x1B # ''[1m''"
definition bold_off :: string where "bold_off = CHR 0x1B # ''[0m''"

text \<open>
  Lines 396-411: the loop over the sorted entities. The state is the text, the running
  \<open>index_change\<close> and the records appended to \<open>entities_per_text[i]\<close>.
\<close>

fun rewrite_entities ::
  "bool \<Rightarrow> (string \<times> cid_entry) list \<Rightarrow> mention list \<Rightarrow> string \<Rightarrow> int \<Rightarrow> entity_record list
   \<Rightarrow> py_error + string \<times> int \<times> entity_record list"
where
  "rewrite_entities write_bold e2c [] text index_change recs = Inr (text, index_change, recs)"
| "rewrite_entities write_bold e2c ((name, start, stop) # entities) text index_change recs =
     (case replacement_name e2c name of
        Inl e \<Rightarrow> Inl e
      | Inr rname \<Rightarrow>
          (let replacement_delta =
                 int (length rname) - (stop - start) + (if write_bold then 8 else 0);
               text' = py_upto text (start + index_change) @
                       (if write_bold then bold_on @ rname @ bold_off else rname) @
                       py_from text (stop + index_change);
               index_change' = index_change + replacement_delta
           in rewrite_entities write_bold e2c entities text' index_change'
                (recs @ [(rname, start + index_change' - replacement_delta,
                          stop + index_change', name)])))"

section \<open>Normalizing a corpus\<close>

record settings =
  use_remove_abbreviations :: bool
  write_bold :: bool
  search_attempts :: nat
  save :: bool
  save_freq :: int

definition default_settings :: settings where
  "default_settings =
     \<lparr>use_remove_abbreviations = True, write_bold = False, search_attempts = 10,
      save = False, save_freq = 100\<rparr>"

text \<open>Lines 317-327: the hard-coded entries, assigned at every call.\<close>

definition hardcoded_cids :: "(string \<times> cid_entry) list" where
  "hardcoded_cids =
     [(''CO'', (Some 281, Some ''carbon monoxide'')),
      (''Co'', (Some 104730, Some ''cobalt'')),
      (''NO'', (Some 145068, Some ''nitric oxide'')),
      (''No'', (Some 24822, Some ''nobelium'')),
      (''sugar'', (None, None)),
      (''chloro'', (None, None)),
      (''alcohol'', (None, None))]"

definition hardcoded_synonyms :: "(string \<times> string list) list" where
  "hardcoded_synonyms =
     [(''carbon monoxide'', [''CO'']),
      (''cobalt'', [''Co'']),
      (''nitric oxide'', [''NO'']),
      (''nobelium'', [''No''])]"

definition assign_all :: "('k \<times> 'v) list \<Rightarrow> ('k \<times> 'v) list \<Rightarrow> ('k \<times> 'v) list" where
  "assign_all kvs d = fold (\<lambda>(k, v). AList.update k v) kvs d"

text \<open>Lines 328-332: every name of \<open>entity_to_cid\<close> gets the count 1.\<close>

definition seed_counts ::
  "(string \<times> cid_entry) list \<Rightarrow> (string \<times> int) list \<Rightarrow> (string \<times> int) list"
where
  "seed_counts e2c counts = fold (\<lambda>(k, v). AList.update (count_key k v) 1) e2c counts"

definition seed :: "processor \<Rightarrow> processor" where
  "seed st =
     st\<lparr>timedout_entities := [],
        entity_to_cid := assign_all hardcoded_cids (entity_to_cid st),
        entity_to_synonyms := assign_all hardcoded_synonyms (entity_to_synonyms st),
        entity_counts :=
          seed_counts (assign_all hardcoded_cids (entity_to_cid st)) (entity_counts st)\<rparr>"

text \<open>
  Lines 419-427: at a checkpoint with \<open>save\<close> set, every synonym list is replaced by
  \<open>list(set(synonyms))\<close>, here the list without its repetitions (Python fixes no order).
  The test \<open>(i+1) % save_freq\<close> is evaluated for every text. Writing the files is not
  modelled.
\<close>

definition checkpoint :: "settings \<Rightarrow> nat \<Rightarrow> int \<Rightarrow> processor \<Rightarrow> py_error + processor" where
  "checkpoint cfg i final st =
     (if save_freq cfg = 0 then Inl ZeroDivisionError
      else if ((int i + 1) mod save_freq cfg = 0 \<or> int i = final) \<and> save cfg
      then Inr (st\<lparr>entity_to_synonyms :=
                     map (\<lambda>(iupac_name, synonyms). (iupac_name, remdups synonyms))
                         (entity_to_synonyms st)\<rparr>)
      else Inr st)"

text \<open>Lines 335-444: the body of the loop over the texts, for the text with index \<open>i\<close>.\<close>

definition normalize_text ::
  "document \<Rightarrow> pubchem \<Rightarrow> settings \<Rightarrow> nat \<Rightarrow> int \<Rightarrow> string \<Rightarrow> processor \<Rightarrow> py_error + processor"
where
  "normalize_text doc pcp cfg i final raw st =
     (case (if use_remove_abbreviations cfg then remove_abbreviations doc raw else Inr raw) of
        Inl e \<Rightarrow> Inl e
      | Inr text \<Rightarrow>
          (case resolve_cems pcp (search_attempts cfg) (snd (doc text)) (st, []) of
             Inl e \<Rightarrow> Inl e
           | Inr (st', entity_list) \<Rightarrow>
               (case rewrite_entities (write_bold cfg) (entity_to_cid st')
                       (sort_key (\<lambda>(name, start, stop). start) entity_list) text 0 [] of
                  Inl e \<Rightarrow> Inl e
                | Inr (text', index_change, recs) \<Rightarrow>
                    checkpoint cfg i final
                      (st'\<lparr>entities_per_text := AList.update i recs (entities_per_text st'),
                           normalized_texts := normalized_texts st' @ [text']\<rparr>))))"

fun normalize_loop ::
  "document \<Rightarrow> pubchem \<Rightarrow> settings \<Rightarrow> nat \<Rightarrow> int \<Rightarrow> string list \<Rightarrow> processor \<Rightarrow> py_error + processor"
where
  "normalize_loop doc pcp cfg i final [] st = Inr st"
| "normalize_loop doc pcp cfg i final (raw # texts) st =
     (case normalize_text doc pcp cfg i final raw st of
        Inl e \<Rightarrow> Inl e
      | Inr st' \<Rightarrow> normalize_loop doc pcp cfg (Suc i) final texts st')"

text \<open>
  \<open>normalize_chemical_entities\<close>; \<open>texts = None\<close> stands for the argument \<open>'default'\<close>,
  which reads \<open>self.clean_texts\<close>.
\<close>

definition normalize_chemical_entities ::
  "document \<Rightarrow> pubchem \<Rightarrow> settings \<Rightarrow> string list option \<Rightarrow> processor \<Rightarrow> py_error + processor"
where
  "normalize_chemical_entities doc pcp cfg texts st =
     (case (case texts of None \<Rightarrow> clean_texts st | Some given \<Rightarrow> Some given) of
        None \<Rightarrow> Inl AttributeError
      | Some ts \<Rightarrow>
          normalize_loop doc pcp cfg (length (normalized_texts st))
            (int (length ts) + int (length (normalized_texts st)) - 1) ts (seed st))"

section \<open>Tokenizing\<close>

text \<open>
  The libraries the tokenizer calls: \<open>Paragraph(text).sentences\<close> as the list of
  \<open>(sentence.text, sentence.end)\<close>, \<open>ChemWordTokenizer().tokenize\<close>, and
  \<open>MaterialsTextProcessor().process\<close> with its \<open>exclude_punct\<close> flag. The unit rule
  \<open>split_token\<close> is a parameter as well: its pattern tests Unicode scripts and its unit
  table holds code points above 255.
\<close>

record toolkit =
  sentences :: "string \<Rightarrow> (string \<times> int) list"
  cwt_tokenize :: "string \<Rightarrow> string list"
  split_token :: "string \<Rightarrow> string list"
  mtp_process :: "bool \<Rightarrow> string list \<Rightarrow> string list"

text \<open>
  An item of \<open>token_list\<close>: a piece of plain text, or the one-element list that holds an
  entity.
\<close>

datatype token_item = Plain string | Entity string

text \<open>Lines 695-704: the loop of \<open>extract_entity_tokens\<close> over the enumerated spans.\<close>

fun extract_loop ::
  "string \<Rightarrow> nat \<Rightarrow> (int \<times> int) list \<Rightarrow> nat \<Rightarrow> int \<Rightarrow> token_item list \<Rightarrow> token_item list"
where
  "extract_loop text n [] j prev_start token_list = token_list"
| "extract_loop text n ((start, stop) # spans) j prev_start token_list =
     extract_loop text n spans (Suc j) stop
       ((if py_slice text prev_start start \<noteq> []
         then token_list @ [Plain (py_slice text prev_start start)] else token_list) @
        [Entity (py_slice text start stop)] @
        (if j = n - 1 then [Plain (py_from text stop)] else []))"

definition extract_entity_tokens :: "string \<Rightarrow> (int \<times> int) list \<Rightarrow> token_item list" where
  "extract_entity_tokens text entity_spans =
     (if 0 < length entity_spans
      then extract_loop text (length entity_spans) entity_spans 0 0 []
      else [Plain text])"

text \<open>Lines 725-736: the loop of \<open>process_token_list\<close>.\<close>

fun process_items ::
  "toolkit \<Rightarrow> token_item list \<Rightarrow> string list \<times> (string \<times> int) list
   \<Rightarrow> string list \<times> (string \<times> int) list"
where
  "process_items tk [] acc = acc"
| "process_items tk (Plain item # items) (tokens, idxs) =
     process_items tk items
       (tokens @ concat (map (split_token tk) (cwt_tokenize tk item)), idxs)"
| "process_items tk (Entity item # items) (tokens, idxs) =
     process_items tk items
       (tokens @ [item], idxs @ [(item, int (length (tokens @ [item])) - 1)])"

definition process_token_list ::
  "toolkit \<Rightarrow> token_item list \<Rightarrow> string list \<times> (string \<times> int) list"
where
  "process_token_list tk token_list = process_items tk token_list ([], [])"

text \<open>Lines 611-617: the entity names are written into the text with underscores.\<close>

fun apply_entities ::
  "entity_record list \<Rightarrow> string \<times> (int \<times> int) list \<Rightarrow> string \<times> (int \<times> int) list"
where
  "apply_entities [] acc = acc"
| "apply_entities ((name, start, stop, orig) # entry) (text, entity_spans) =
     apply_entities entry
       (py_upto text start @ replace_spaces name @ py_from text stop,
        entity_spans @ [(start, stop)])"

text \<open>Lines 641-644: the spans handed to one sentence.\<close>

definition sentence_entities :: "(int \<times> int) list \<Rightarrow> int \<Rightarrow> int \<Rightarrow> (int \<times> int) list" where
  "sentence_entities entity_spans prior_split split =
     [(start - split, stop - split).
        (start, stop) \<leftarrow> entity_spans, stop < split \<and> start \<ge> prior_split]"

text \<open>Lines 637-659: the loop over the sentences; \<open>prior_split\<close> starts at 0.\<close>

fun sentence_loop ::
  "toolkit \<Rightarrow> bool \<Rightarrow> (int \<times> int) list \<Rightarrow> int \<Rightarrow> (string \<times> int) list
   \<Rightarrow> (string list \<times> (string \<times> int) list) list"
where
  "sentence_loop tk exclude_punct entity_spans prior_split [] = []"
| "sentence_loop tk exclude_punct entity_spans prior_split ((sentence, split) # rest) =
     (case process_token_list tk
             (extract_entity_tokens sentence
                (sentence_entities entity_spans prior_split split)) of
        (sentence_tokens, sentence_entity_idxs) \<Rightarrow>
          (mtp_process tk exclude_punct sentence_tokens, sentence_entity_idxs) #
          sentence_loop tk exclude_punct entity_spans split rest)"

text \<open>Lines 607-660: the body of the loop of \<open>tokenize\<close> for one text and its entities.\<close>

definition tokenize_text ::
  "toolkit \<Rightarrow> bool \<Rightarrow> bool \<Rightarrow> bool \<Rightarrow> string \<Rightarrow> entity_record list \<Rightarrow> tokens \<times> token_idxs"
where
  "tokenize_text tk use_entities keep_sentences exclude_punct raw entry =
     (case (if use_entities then apply_entities entry (raw, []) else (raw, [])) of
        (text, entity_spans) \<Rightarrow>
          if \<not> keep_sentences then
            (case process_token_list tk (extract_entity_tokens text entity_spans) of
               (tokens, idxs) \<Rightarrow> (Flat (mtp_process tk exclude_punct tokens), FlatIdxs idxs))
          else
            (BySentence
               (map fst (sentence_loop tk exclude_punct entity_spans 0 (sentences tk text))),
             SentenceIdxs
               (map snd (sentence_loop tk exclude_punct entity_spans 0 (sentences tk text)))))"

fun tokenize_loop ::
  "toolkit \<Rightarrow> bool \<Rightarrow> bool \<Rightarrow> bool \<Rightarrow> (nat \<times> entity_record list) list \<Rightarrow> nat \<Rightarrow> string list
   \<Rightarrow> processor \<Rightarrow> py_error + processor"
where
  "tokenize_loop tk use_entities keep_sentences exclude_punct entities i [] st = Inr st"
| "tokenize_loop tk use_entities keep_sentences exclude_punct entities i (text # texts) st =
     (case (if use_entities
            then (case map_of entities i of None \<Rightarrow> Inl KeyError | Some entry \<Rightarrow> Inr entry)
            else Inr []) of
        Inl e \<Rightarrow> Inl e
      | Inr entry \<Rightarrow>
          (case tokenize_text tk use_entities keep_sentences exclude_punct text entry of
             (tokens, idxs) \<Rightarrow>
               tokenize_loop tk use_entities keep_sentences exclude_punct entities (Suc i) texts
                 (st\<lparr>entity_idxs := AList.update i idxs (entity_idxs st),
                     tokenized_texts := AList.update i tokens (tokenized_texts st)\<rparr>)))"

text \<open>
  \<open>tokenize\<close>; \<open>None\<close> stands for the argument \<open>'default'\<close> of \<open>texts\<close> and of
  \<open>entities\<close>. Writing the files is not modelled.
\<close>

definition tokenize ::
  "toolkit \<Rightarrow> string list option \<Rightarrow> (nat \<times> entity_record list) list option \<Rightarrow> bool \<Rightarrow> bool
   \<Rightarrow> bool \<Rightarrow> processor \<Rightarrow> py_error + processor"
where
  "tokenize tk texts entities use_entities keep_sentences exclude_punct st =
     (let texts' = (case texts of None \<Rightarrow> normalized_texts st | Some given \<Rightarrow> given);
          entities' = (case entities of None \<Rightarrow> entities_per_text st | Some given \<Rightarrow> given)
      in if use_entities \<and> length texts' \<noteq> length entities' then Inl AssertionError
         else tokenize_loop tk use_entities keep_sentences exclude_punct entities' 0 texts' st)"

section \<open>Constructing the processor\<close>

text \<open>
  The argument \<open>texts\<close> is \<open>None\<close>, one string, or a list whose entries may be \<open>None\<close>.
  \<open>clean_abstract\<close> (with \<open>remove_symbols\<close>) is a parameter: a function from a text to
  a cleaned text that may raise. Every theorem about the constructor holds for every such
  function.
\<close>

datatype texts_arg = NoTexts | SingleText string | TextList "string option list"

definition warn_empty :: string where
  "warn_empty = CHR 0x0D # CHR 0x1B #
     ''[KWARNING: TEXT LIST CONTAINS EMPTY ABSTRACTS. NOT ALL SAMPLES CAN BE CLEANED.''"

definition warn_short :: string where
  "warn_short = CHR 0x0D # CHR 0x1B #
     ''[KWARNING: SOME ABSTRACTS WERE DROPPED DUE TO LENGTH. CHECK dropped_idxs FOR IDX NUMBERS.''"

definition min_len :: nat where
  "min_len = 5"

text \<open>The variables of the cleaning loop, and what it has written to standard output.\<close>

record cleaning =
  cleaned :: "string list"
  dropped :: "nat list"
  warned :: bool
  too_short :: bool
  written :: "string list"

text \<open>
  Lines 116-127. For an absent abstract line 120 reads \<open>self.dropped_idxs[i]\<close>, after the
  warning has been written.
\<close>

fun clean_loop ::
  "(string \<Rightarrow> py_error + string) \<Rightarrow> nat \<Rightarrow> string option list \<Rightarrow> cleaning \<Rightarrow> py_error + cleaning"
where
  "clean_loop clean_abstract i [] acc = Inr acc"
| "clean_loop clean_abstract i (None # rest) acc =
     (case py_get (dropped acc) (int i) of
        Inl e \<Rightarrow> Inl e
      | Inr unused \<Rightarrow>
          clean_loop clean_abstract (Suc i) rest
            (acc\<lparr>written := written acc @ [warn_empty], warned := True\<rparr>))"
| "clean_loop clean_abstract i (Some abstract # rest) acc =
     (case clean_abstract abstract of
        Inl e \<Rightarrow> Inl e
      | Inr abstract' \<Rightarrow>
          if length abstract' < min_len
          then clean_loop clean_abstract (Suc i) rest
                 (acc\<lparr>dropped := dropped acc @ [i], too_short := True\<rparr>)
          else clean_loop clean_abstract (Suc i) rest
                 (acc\<lparr>cleaned := cleaned acc @ [abstract']\<rparr>))"

text \<open>\<open>__init__\<close>: the new processor and the lines written to standard output.\<close>

definition init ::
  "(string \<Rightarrow> py_error + string) \<Rightarrow> texts_arg \<Rightarrow> string \<Rightarrow> py_error + processor \<times> string list"
where
  "init clean_abstract texts ptype =
     (if ptype = ''abstract'' then
        (case clean_loop clean_abstract 0
                (case texts of NoTexts \<Rightarrow> [] | SingleText t \<Rightarrow> [Some t] | TextList ts \<Rightarrow> ts)
                \<lparr>cleaned = [], dropped = [], warned = False, too_short = False, written = []\<rparr> of
           Inl e \<Rightarrow> Inl e
         | Inr acc \<Rightarrow>
             Inr (\<lparr>clean_texts = Some (cleaned acc), dropped_idxs = Some (dropped acc),
                   normalized_texts = [], entity_counts = [], entities_per_text = [],
                   entity_to_cid = [], entity_to_synonyms = [], tokenized_texts = [],
                   entity_idxs = [], timedout_entities = []\<rparr>,
                  written acc @
                  (if too_short acc then [warn_short, [CHR 0x0A, CHR 0x0A]]
                   else if warned acc then [[CHR 0x0A, CHR 0x0A]] else [])))
      else
        Inr (\<lparr>clean_texts = None, dropped_idxs = None,
              normalized_texts = [], entity_counts = [], entities_per_text = [],
              entity_to_cid = [], entity_to_synonyms = [], tokenized_texts = [],
              entity_idxs = [], timedout_entities = []\<rparr>, []))"

section \<open>Notions used to state the properties\<close>

text \<open>The end of the sentence before sentence \<open>j\<close>, and 0 for the first sentence.\<close>

definition prior_end :: "(string \<times> int) list \<Rightarrow> nat \<Rightarrow> int" where
  "prior_end sents j = (if j = 0 then 0 else snd (sents ! (j - 1)))"

text \<open>
  The remapping as the specification words it: the kept spans minus the sentence's start
  offset, the end of the previous sentence. It is compared with \<open>sentence_entities\<close>.
\<close>

definition claimed_sentence_entities :: "(int \<times> int) list \<Rightarrow> int \<Rightarrow> int \<Rightarrow> (int \<times> int) list" where
  "claimed_sentence_entities entity_spans prior_split split =
     [(start - prior_split, stop - prior_split).
        (start, stop) \<leftarrow> entity_spans, stop < split \<and> start \<ge> prior_split]"

text \<open>
  An abbreviation definition that the loop of \<open>remove_abbreviations\<close> reaches with
  \<open>low_idx = 0\<close>: it has an entity type and a short form, and no recognized entity
  carries its escaped name or the earliest one starts at index 0.
\<close>

definition zero_low :: "cem list \<Rightarrow> abbv \<Rightarrow> bool" where
  "zero_low cems a =
     (case a of (short, long, tag) \<Rightarrow>
        tag \<noteq> None \<and>
        (case short of [] \<Rightarrow> False
         | first # others \<Rightarrow> low_idx_of (cem_starts cems (escape_abbv first)) = 0))"

text \<open>The document analysis with those abbreviation definitions left out.\<close>

definition without_zero_low :: "document \<Rightarrow> document" where
  "without_zero_low doc =
     (\<lambda>t. case doc t of (abbvs, cems) \<Rightarrow> (filter (\<lambda>a. \<not> zero_low cems a) abbvs, cems))"

text \<open>
  The replacement name of a mention whose name has an entry in \<open>entity_to_cid\<close>; the
  text written in its place, which with \<open>write_bold\<close> is the name between the two escape
  sequences; the length a replacement adds to the text; and the drift before the \<open>k\<close>-th
  mention: the sum of the lengths added by the mentions before it.
\<close>

definition rname_of :: "(string \<times> cid_entry) list \<Rightarrow> string \<Rightarrow> string" where
  "rname_of e2c name = (case replacement_name e2c name of Inl e \<Rightarrow> [] | Inr rname \<Rightarrow> rname)"


definition delta_of :: "bool \<Rightarrow> (string \<times> cid_entry) list \<Rightarrow> mention \<Rightarrow> int" where
  "delta_of wb e2c m =
     (case m of (name, start, stop) \<Rightarrow>
        int (length (rname_of e2c name)) - (stop - start) + (if wb then 8 else 0))"

definition drift :: "bool \<Rightarrow> (string \<times> cid_entry) list \<Rightarrow> mention list \<Rightarrow> nat \<Rightarrow> int" where
  "drift wb e2c ms k = sum_list (map (delta_of wb e2c) (take k ms))"




section \<open>Example inputs\<close>

text \<open>
  A processor with empty tables, a lookup service that knows three names, and a document
  analysis that recognizes the entities of three texts and no abbreviation.
\<close>

definition fresh :: processor where
  "fresh = \<lparr>clean_texts = Some [], dropped_idxs = Some [], normalized_texts = [],
            entity_counts = [], entities_per_text = [], entity_to_cid = [],
            entity_to_synonyms = [], tokenized_texts = [], entity_idxs = [],
            timedout_entities = []\<rparr>"

definition pubchem_example :: pubchem where
  "pubchem_example name i =
     (if name = ''carbon monoxide'' then Compounds [(281, Some ''carbon monoxide'')]
      else if name = ''water'' \<or> name = ''H2O'' then Compounds [(962, Some ''oxidane'')]
      else Compounds [])"

definition document_example :: document where
  "document_example t =
     ([], if t = ''carbon monoxide'' then [(''carbon monoxide'', 0, 15)]
          else if t = ''water water H2O''
          then [(''water'', 0, 5), (''water'', 6, 11), (''H2O'', 12, 15)]
          else if t = ''CO is toxic'' then [(''CO'', 0, 2)]
          else [])"

text \<open>
  The hard-coded entry for \<open>CO\<close> is in \<open>entity_to_cid\<close>; every record of a list that
  replaces the name \<open>CO\<close> replaces it by \<open>carbon monoxide\<close>; two lookup services answer
  alike for every name but \<open>CO\<close>.
\<close>

definition co_entry :: "processor \<Rightarrow> bool" where
  "co_entry st = (map_of (entity_to_cid st) ''CO'' = Some (Some 281, Some ''carbon monoxide''))"

definition co_records :: "entity_record list \<Rightarrow> bool" where
  "co_records recs = list_all (\<lambda>(rname, start, stop, name). name = ''CO'' \<longrightarrow> rname = ''carbon monoxide'') recs"

definition agree_off_co :: "pubchem \<Rightarrow> pubchem \<Rightarrow> bool" where
  "agree_off_co pcp' pcp = (\<forall>name i. name \<noteq> ''CO'' \<longrightarrow> pcp' name i = pcp name i)"

text \<open>The number of replacements the scan of \<open>re_sub_abbv\<close> makes.\<close>

function count_subs :: "string \<Rightarrow> string \<Rightarrow> nat" where
  "count_subs lit [] = 0"
| "count_subs lit (c # cs) =
     (if is_space c \<and> take (length lit) cs = lit then
        (case drop (length lit) cs of
           [] \<Rightarrow> 1
         | d # rest \<Rightarrow>
             if is_delim d then Suc (count_subs lit rest) else count_subs lit cs)
      else count_subs lit cs)"
  by pat_completeness auto
termination
proof (relation "measure (\<lambda>(lit, t). length t)")
  fix lit :: string and c d :: char and cs rest :: string
  assume "drop (length lit) cs = d # rest"
  then have "length (drop (length lit) cs) = Suc (length rest)" by simp
  then show "((lit, rest), lit, c # cs) \<in> measure (\<lambda>(lit, t). length t)"
    by simp
qed auto

text \<open>
  The span of the earliest recognized entity with the given text: the first one with the
  least start.
\<close>

definition earliest_span :: "cem list \<Rightarrow> string \<Rightarrow> (int \<times> int) option" where
  "earliest_span cems name =
     (case argmin (cem_starts cems name) of
        Inl e \<Rightarrow> None
      | Inr k \<Rightarrow> Some (cem_starts cems name ! k, cem_ends cems name ! k))"


text \<open>A document analysis with one abbreviation definition and its recognized entities.\<close>

definition abbreviation_example :: document where
  "abbreviation_example t =
     ([([''DMF''], [''dimethylformamide''], Some ''CM'')],
      [(''dimethylformamide'', 0, 17), (''DMF'', 19, 22), (''DMF'', 35, 38), (''DMF'', 49, 52)])"

text \<open>
  Every name with a synonym list in the first state has one in the second, with at least
  the same synonyms.
\<close>

definition synonyms_within :: "processor \<Rightarrow> processor \<Rightarrow> bool" where
  "synonyms_within st st' =
     (\<forall>k syns. map_of (entity_to_synonyms st) k = Some syns \<longrightarrow>
        (\<exists>syns'. map_of (entity_to_synonyms st') k = Some syns' \<and> set syns \<subseteq> set syns'))"

section \<open>Properties\<close>

subsection \<open>Sentence-level spans\<close>

lemma map_upt_Suc_shift: "map f [0..<Suc n] = f 0 # map (\<lambda>j. f (Suc j)) [0..<n]"
  by (simp add: upt_conv_Cons map_Suc_upt[symmetric] del: upt_Suc)

lemma sentence_loop_from:
  "sentence_loop tk ep spans p sents =
     map (\<lambda>j. case process_token_list tk
                    (extract_entity_tokens (fst (sents ! j))
                       (sentence_entities spans (if j = 0 then p else snd (sents ! (j - 1)))
                          (snd (sents ! j)))) of
                 (toks, idxs) \<Rightarrow> (mtp_process tk ep toks, idxs))
         [0..<length sents]"
proof (induction sents arbitrary: p)
  case Nil
  then show ?case by simp
next
  case (Cons s rest)
  obtain stext split where s: "s = (stext, split)" by (cases s)
  have len: "length (s # rest) = Suc (length rest)" by simp
  show ?case
    unfolding len map_upt_Suc_shift
    by (simp add: s Cons.IH[of split] nth_Cons' split: prod.splits cong: map_cong)
qed

text \<open>
  Claim C2, as the code has it. With sentence-level segmentation, sentence \<open>j\<close> is
  tokenized with exactly the entity spans whose end is below the sentence's end and whose
  start is at least the end of the previous sentence (0 for the first sentence), and each
  kept span is shifted by the end offset of its own sentence, not by the sentence's start.
  The shifted bounds are negative and Python's slicing counts them from the end of the
  sentence text.
\<close>

theorem sentence_spans_use_sentence_end:
  "sentence_loop tk ep spans 0 sents =
     map (\<lambda>j. case process_token_list tk
                    (extract_entity_tokens (fst (sents ! j))
                       [(start - snd (sents ! j), stop - snd (sents ! j)).
                          (start, stop) \<leftarrow> spans,
                          stop < snd (sents ! j) \<and> start \<ge> prior_end sents j]) of
                 (toks, idxs) \<Rightarrow> (mtp_process tk ep toks, idxs))
         [0..<length sents]"
  unfolding sentence_loop_from[of tk ep spans 0 sents] sentence_entities_def prior_end_def
  by (rule map_cong[OF refl]) simp

text \<open>
  The claim as the specification states it fails. In \<open>A b. CO is x.\<close> the second sentence
  ends at 13 and the first at 4; the entity at \<open>(5, 7)\<close> is handed over as \<open>(-8, -6)\<close>, not
  as \<open>(1, 3)\<close>. The sentence text starts at offset 5, so \<open>(-8, -6)\<close> cuts out \<open>CO\<close> and
  \<open>(1, 3)\<close> would not.
\<close>

theorem sentence_entities_counterexample:
  "sentence_entities [(5, 7)] 4 13 = [(- 8, - 6)] \<and>
   claimed_sentence_entities [(5, 7)] 4 13 = [(1, 3)] \<and>
   sentence_entities [(5, 7)] 4 13 \<noteq> claimed_sentence_entities [(5, 7)] 4 13 \<and>
   extract_entity_tokens ''CO is x.'' (sentence_entities [(5, 7)] 4 13)
     = [Entity ''CO'', Plain '' is x.''] \<and>
   extract_entity_tokens ''CO is x.'' (claimed_sentence_entities [(5, 7)] 4 13)
     = [Plain ''C'', Entity ''O '', Plain ''is x.'']"
  by (simp add: sentence_entities_def claimed_sentence_entities_def extract_entity_tokens_def
        py_slice_def py_from_def py_bound_def)

subsection \<open>Absent texts in the constructor\<close>

lemma clean_loop_absent:
  "length (dropped acc) \<le> i \<Longrightarrow> None \<in> set texts \<Longrightarrow>
   \<exists>e. clean_loop c i texts acc = Inl e \<and> ((\<forall>a. \<exists>b. c a = Inr b) \<longrightarrow> e = IndexError)"
proof (induction c i texts acc rule: clean_loop.induct)
  case (1 c i acc)
  then show ?case by simp
next
  case (2 c i rest acc)
  then show ?case by (simp add: py_get_def)
next
  case (3 c i abstract rest acc)
  show ?case
  proof (cases "c abstract")
    case (Inl e)
    then have "\<not> (\<forall>a. \<exists>b. c a = Inr b)" by (metis Inl_Inr_False)
    then show ?thesis using Inl by (simp del: not_all)
  next
    case (Inr b)
    then show ?thesis using 3 by auto
  qed
qed

text \<open>
  Claim C3 does not hold of the code. Line 120 reads \<open>self.dropped_idxs[i]\<close> where the
  sibling branch (line 124) appends \<open>i\<close>. The list holds at most one entry per earlier
  text, so index \<open>i\<close> is out of range and the read raises: constructing a processor of
  type \<open>'abstract'\<close> over a corpus with an absent text always ends in an exception,
  and in an \<open>IndexError\<close> when cleaning itself raises nothing.
\<close>

theorem init_absent_text_raises:
  "None \<in> set texts \<Longrightarrow>
   \<exists>e. init clean_abstract (TextList texts) ''abstract'' = Inl e \<and>
       ((\<forall>a. \<exists>b. clean_abstract a = Inr b) \<longrightarrow> e = IndexError)"
  using clean_loop_absent[of "\<lparr>cleaned = [], dropped = [], warned = False,
                               too_short = False, written = []\<rparr>" 0 texts clean_abstract]
  by (auto simp: init_def)

theorem init_absent_text_raises_witness:
  "None \<in> set [Some ''An abstract of some length.'', None] \<and>
   init (\<lambda>a. Inr a) (TextList [Some ''An abstract of some length.'', None]) ''abstract''
     = Inl IndexError"
  using init_absent_text_raises[of "[Some ''An abstract of some length.'', None]" "\<lambda>a. Inr a"]
  by (simp add: init_def min_len_def py_get_def)

subsection \<open>Tokenizing a text without entities\<close>

lemma sentence_loop_no_spans:
  "map snd (sentence_loop tk ep [] p sents) = replicate (length sents) []"
  by (induction sents arbitrary: p)
     (auto simp: sentence_entities_def extract_entity_tokens_def process_token_list_def)

text \<open>
  Claim C9. For a text with no entity record, tokenizing with \<open>use_entities\<close> set gives
  the same tokens and the same index map as tokenizing without it (whatever entity
  records the call without it is given). The tokens of the unsegmented text are the
  processed, unit-split word tokens of the whole text; the index map is empty, and with
  sentence segmentation it is one empty list per sentence.
\<close>

theorem tokenize_text_without_entities:
  "tokenize_text tk True ks ep text [] = tokenize_text tk False ks ep text entry \<and>
   fst (tokenize_text tk True False ep text [])
     = Flat (mtp_process tk ep (concat (map (split_token tk) (cwt_tokenize tk text)))) \<and>
   snd (tokenize_text tk True False ep text []) = FlatIdxs [] \<and>
   snd (tokenize_text tk True True ep text [])
     = SentenceIdxs (replicate (length (sentences tk text)) [])"
  by (simp add: tokenize_text_def process_token_list_def extract_entity_tokens_def
        sentence_loop_no_spans)

subsection \<open>Abbreviations with low index 0\<close>

lemma argmin_from_Min:
  "pre \<noteq> [] \<Longrightarrow> i = length pre \<Longrightarrow> besti < length pre \<Longrightarrow> pre ! besti = best \<Longrightarrow>
   best = Min (set pre) \<Longrightarrow>
   argmin_from xs i best besti < length (pre @ xs) \<and>
   (pre @ xs) ! argmin_from xs i best besti = Min (set (pre @ xs))"
proof (induction xs arbitrary: pre i best besti)
  case Nil
  then show ?case by simp
next
  case (Cons x xs)
  have app: "pre @ x # xs = (pre @ [x]) @ xs" by simp
  have m: "Min (set (pre @ [x])) = min x best"
    using Cons.prems(1) Cons.prems(5) by simp
  show ?case
  proof (cases "x < best")
    case True
    have step: "argmin_from (x # xs) i best besti = argmin_from xs (Suc i) x i"
      using True by simp
    have "argmin_from xs (Suc i) x i < length ((pre @ [x]) @ xs) \<and>
          ((pre @ [x]) @ xs) ! argmin_from xs (Suc i) x i = Min (set ((pre @ [x]) @ xs))"
    proof (rule Cons.IH)
      show "x = Min (set (pre @ [x]))" unfolding m using True by (simp add: min_def)
    qed (use Cons.prems in \<open>simp_all add: nth_append\<close>)
    then show ?thesis unfolding step app .
  next
    case False
    have step: "argmin_from (x # xs) i best besti = argmin_from xs (Suc i) best besti"
      using False by simp
    have "argmin_from xs (Suc i) best besti < length ((pre @ [x]) @ xs) \<and>
          ((pre @ [x]) @ xs) ! argmin_from xs (Suc i) best besti = Min (set ((pre @ [x]) @ xs))"
    proof (rule Cons.IH)
      show "best = Min (set (pre @ [x]))" unfolding m using False by (simp add: min_def)
    qed (use Cons.prems in \<open>simp_all add: nth_append\<close>)
    then show ?thesis unfolding step app .
  qed
qed

lemma argmin_Min:
  "xs \<noteq> [] \<Longrightarrow> \<exists>k. argmin xs = Inr k \<and> k < length xs \<and> xs ! k = Min (set xs)"
  using argmin_from_Min[of "[hd xs]" 1 0 "hd xs" "tl xs"]
  by (cases xs) (auto simp: argmin_def)

lemma low_idx_of_Min: "low_idx_of starts = (if starts = [] then 0 else Min (set starts))"
  using argmin_Min[of starts] by (auto simp: low_idx_of_def argmin_def)

lemma abbv_loop_skips:
  "abbv_loop cems entries acc = abbv_loop cems (filter (\<lambda>(a, n, low). low \<noteq> 0) entries) acc"
proof (induction entries arbitrary: acc)
  case Nil
  then show ?case by simp
next
  case (Cons entry entries)
  obtain a n low where entry: "entry = (a, n, low)" by (cases entry)
  obtain t0 ic where acc: "acc = (t0, ic)" by (cases acc)
  show ?case
    using Cons.IH by (simp add: entry acc split: sum.splits)
qed

lemma in_set_updateD:
  "(k', v') \<in> set (AList.update k v d) \<Longrightarrow> (k', v') = (k, v) \<or> (k', v') \<in> set d"
  by (induction d) (auto split: if_splits)

lemma filter_update:
  "(\<And>v'. (k, v') \<in> set d \<Longrightarrow> P (k, v') = P (k, v)) \<Longrightarrow>
   filter P (AList.update k v d) = (if P (k, v) then AList.update k v (filter P d) else filter P d)"
  by (induction d) auto

lemma build_abbv_dict_filter:
  "(\<And>k n low. (k, n, low) \<in> set d \<Longrightarrow> low = low_idx_of (cem_starts cems k)) \<Longrightarrow>
   build_abbv_dict cems (filter (\<lambda>a. \<not> zero_low cems a) abbvs) (filter (\<lambda>(a, n, low). low \<noteq> 0) d)
     = (case build_abbv_dict cems abbvs d of
          Inl e \<Rightarrow> Inl e
        | Inr d' \<Rightarrow> Inr (filter (\<lambda>(a, n, low). low \<noteq> 0) d'))"
proof (induction cems abbvs d rule: build_abbv_dict.induct)
  case (1 cems d)
  then show ?case by simp
next
  case (2 cems short long tag rest d)
  show ?case
  proof (cases tag)
    case None
    then show ?thesis using 2 by (simp add: zero_low_def)
  next
    case (Some ty)
    show ?thesis
    proof (cases short)
      case Nil
      then show ?thesis using Some by (simp add: zero_low_def)
    next
      case (Cons first others)
      let ?k = "escape_abbv first"
      let ?v = "(join_spaces long, low_idx_of (cem_starts cems ?k))"
      let ?P = "\<lambda>(a, n, low). low \<noteq> (0::int)"
      have inv: "\<And>k n low. (k, n, low) \<in> set (AList.update ?k ?v d)
                   \<Longrightarrow> low = low_idx_of (cem_starts cems k)"
        using "2.prems" by (auto dest!: in_set_updateD)
      have same: "\<And>v'. (?k, v') \<in> set d \<Longrightarrow> ?P (?k, v') = ?P (?k, ?v)"
        using "2.prems" by auto
      have IH: "build_abbv_dict cems (filter (\<lambda>a. \<not> zero_low cems a) rest)
                  (filter ?P (AList.update ?k ?v d))
                = (case build_abbv_dict cems rest (AList.update ?k ?v d) of
                     Inl e \<Rightarrow> Inl e | Inr d' \<Rightarrow> Inr (filter ?P d'))"
        by (rule "2.IH"(2)[OF Some Cons]) (use inv in blast)
      have head: "zero_low cems (short, long, tag) \<longleftrightarrow> low_idx_of (cem_starts cems ?k) = 0"
        by (simp add: zero_low_def Some Cons)
      have lhs: "build_abbv_dict cems ((short, long, tag) # rest) d
                   = build_abbv_dict cems rest (AList.update ?k ?v d)"
        by (simp add: Some Cons)
      show ?thesis
      proof (cases "low_idx_of (cem_starts cems ?k) = 0")
        case True
        then have "filter ?P (AList.update ?k ?v d) = filter ?P d"
          using filter_update[of ?k d ?P ?v, OF same] by simp
        then show ?thesis using IH True head unfolding lhs by simp
      next
        case False
        then have "filter ?P (AList.update ?k ?v d) = AList.update ?k ?v (filter ?P d)"
          using filter_update[of ?k d ?P ?v, OF same] by simp
        then show ?thesis using IH False head unfolding lhs by (simp add: Some Cons)
      qed
    qed
  qed
qed

text \<open>
  Claim C10. An abbreviation whose \<open>low_idx\<close> is 0 is left alone by the loop: the text
  and \<open>index_change\<close> come out of its iteration as they went in, so neither the deletion
  nor the substitution happens. \<open>low_idx\<close> is 0 both when no recognized entity matches the
  abbreviation and when the earliest matching entity starts at index 0. For the whole
  function: the result is the one obtained when every such abbreviation is left out of
  the extractor's output.
\<close>

theorem zero_low_idx_abbreviation_is_skipped:
  "abbv_step cems (t0, index_change) (abbv, non_abbv, 0) = Inr (t0, index_change) \<and>
   (low_idx_of (cem_starts cems abbv) = 0
      \<longleftrightarrow> cem_starts cems abbv = [] \<or> Min (set (cem_starts cems abbv)) = 0) \<and>
   remove_abbreviations doc t0 = remove_abbreviations (without_zero_low doc) t0"
proof -
  obtain abbvs cems' where doc: "doc t0 = (abbvs, cems')" by (cases "doc t0")
  let ?P = "\<lambda>(a :: string, n :: string, low :: int). low \<noteq> 0"
  let ?f = "\<lambda>(a :: string, n :: string, low :: int). low"
  have build: "build_abbv_dict cems' (filter (\<lambda>a. \<not> zero_low cems' a) abbvs) []
     = (case build_abbv_dict cems' abbvs [] of Inl e \<Rightarrow> Inl e | Inr d' \<Rightarrow> Inr (filter ?P d'))"
    using build_abbv_dict_filter[of "[]" cems' abbvs] by simp
  have loop: "abbv_loop cems' (sort_key ?f d) acc = abbv_loop cems' (sort_key ?f (filter ?P d)) acc"
    for d acc
    using abbv_loop_skips[of cems' "sort_key ?f d" acc] by (simp add: filter_sort)
  have "remove_abbreviations doc t0 = remove_abbreviations (without_zero_low doc) t0"
  proof (cases "build_abbv_dict cems' abbvs []")
    case (Inl e)
    then have "abbvs \<noteq> []" by (cases abbvs) auto
    moreover have "filter (\<lambda>a. \<not> zero_low cems' a) abbvs \<noteq> []"
      using build Inl by (cases "filter (\<lambda>a. \<not> zero_low cems' a) abbvs") auto
    ultimately show ?thesis
      using build Inl by (simp add: remove_abbreviations_def without_zero_low_def doc)
  next
    case (Inr d)
    show ?thesis
    proof (cases "filter (\<lambda>a. \<not> zero_low cems' a) abbvs = []")
      case True
      then have "filter ?P d = []" using build Inr by simp
      then show ?thesis
        using True Inr loop[of d "(t0, 0)"]
        by (cases "abbvs = []") (simp_all add: remove_abbreviations_def without_zero_low_def doc)
    next
      case False
      then have "abbvs \<noteq> []" by auto
      then show ?thesis
        using False build Inr loop[of d "(t0, 0)"]
        by (simp add: remove_abbreviations_def without_zero_low_def doc)
    qed
  qed
  then show ?thesis by (simp add: low_idx_of_Min)
qed

subsection \<open>Rewriting with index tracking\<close>

lemma py_upto_take: "0 \<le> k \<Longrightarrow> py_upto xs k = take (nat k) xs"
  by (simp add: py_upto_def py_bound_def min_def)

lemma py_from_drop: "0 \<le> k \<Longrightarrow> py_from xs k = drop (nat k) xs"
  by (simp add: py_from_def py_bound_def min_def)







lemma drift_0: "drift wb e2c ms 0 = 0"
  by (simp add: drift_def)







text \<open>
  Entity resolution leaves every name of its entity list with an entry in
  \<open>entity_to_cid\<close>, so the rewriter that follows it never meets an unknown name.
\<close>

lemma resolve_cem_names_known:
  assumes "resolve_cem pcp n (st, el) cem = Inr (st', el')"
      and "\<forall>m \<in> set el. fst m \<in> fst ` set (entity_to_cid st)"
  shows "\<forall>m \<in> set el'. fst m \<in> fst ` set (entity_to_cid st')"
proof -
  obtain t start stop where cem: "cem = (t, start, stop)" by (cases cem)
  show ?thesis
  proof (cases "valence_rewrite t")
    case (Inl e)
    then show ?thesis using assms(1) by (simp add: cem)
  next
    case (Inr t')
    show ?thesis
    proof (cases "map_of (entity_to_cid st) (mention_name t')")
      case None
      have "entity_to_cid (snd (search_pubchem pcp (mention_name t') n st)) = entity_to_cid st"
        by (simp add: search_pubchem_def split: option.splits)
      then have keys: "fst ` set (entity_to_cid
                 (register_lookup (mention_name t')
                    (fst (search_pubchem pcp (mention_name t') n st))
                    (snd (search_pubchem pcp (mention_name t') n st))))
              = insert (mention_name t') (fst ` set (entity_to_cid st))"
        by (simp add: register_lookup_def dom_update
                 split: list.splits prod.splits option.splits)
      have res: "st' = register_lookup (mention_name t')
                    (fst (search_pubchem pcp (mention_name t') n st))
                    (snd (search_pubchem pcp (mention_name t') n st))"
                "el' = el @ [(mention_name t', start, stop)]"
        using assms(1) None by (simp_all add: cem Inr split: prod.splits)
      show ?thesis
        unfolding res keys using assms(2) by auto
    next
      case (Some entry)
      then have "mention_name t' \<in> fst ` set (entity_to_cid st)"
        by (metis domI dom_map_of_conv_image_fst)
      then have here: "mention_name t' \<in> fst ` set (entity_to_cid st)" .
      have res: "entity_to_cid st' = entity_to_cid st"
                "el' = el @ [(mention_name t', start, stop)]"
        using assms(1) Some
        by (auto simp: cem Inr increment_count_def split: sum.splits option.splits)
      show ?thesis
        unfolding res using assms(2) here by auto
    qed
  qed
qed

lemma resolve_cems_names_known:
  "resolve_cems pcp n cems (st, el) = Inr (st', el') \<Longrightarrow>
   \<forall>m \<in> set el. fst m \<in> fst ` set (entity_to_cid st) \<Longrightarrow>
   \<forall>m \<in> set (sort_key (\<lambda>(name, start, stop). start) el').
      fst m \<in> fst ` set (entity_to_cid st')"
proof (induction cems arbitrary: st el)
  case Nil
  then show ?case by simp
next
  case (Cons cem cems)
  from Cons.prems(1) obtain st1 el1 where
    one: "resolve_cem pcp n (st, el) cem = Inr (st1, el1)" and
    rest: "resolve_cems pcp n cems (st1, el1) = Inr (st', el')"
    by (auto split: sum.splits)
  show ?case
    by (rule Cons.IH[OF rest resolve_cem_names_known[OF one Cons.prems(2)]])
qed




text \<open>
  Outside the contract, with overlapping spans, the recorded spans need not hold the
  replacement names: \<open>NO2\<close> at \<open>(0, 3)\<close> and \<open>NO\<close> at \<open>(0, 2)\<close> in the text \<open>NO2\<close>.
\<close>

lemma rewrite_entities_overlapping_spans:
  "rewrite_entities False
     (hardcoded_cids @ [(''NO2'', (Some 3032552, Some ''nitrogen dioxide''))])
     [(''NO2'', 0, 3), (''NO'', 0, 2)] ''NO2'' 0 []
     = Inr (''nitrogen dioxnitric oxidee'', 23,
            [(''nitrogen dioxide'', 0, 16, ''NO2''), (''nitric oxide'', 13, 25, ''NO'')]) \<and>
   py_slice ''nitrogen dioxnitric oxidee'' 0 16 = ''nitrogen dioxnit''"
  by (simp add: replacement_name_def hardcoded_cids_def count_key_def py_upto_def py_from_def
        py_slice_def py_bound_def)

subsection \<open>Names of mentions\<close>

lemma length_ELEMENTS: "length ELEMENTS = 119" "length ELEMENT_NAMES = 119"
  by (simp_all add: ELEMENTS_def ELEMENT_NAMES_def)

lemma keys_assign_all:
  "fst ` set (assign_all kvs d) = fst ` set kvs \<union> fst ` set d"
proof (induction kvs arbitrary: d)
  case Nil
  then show ?case by (simp add: assign_all_def)
next
  case (Cons kv kvs)
  have "assign_all (kv # kvs) d = assign_all kvs (AList.update (fst kv) (snd kv) d)"
    by (simp add: assign_all_def split_beta)
  then show ?case
    using Cons.IH[of "AList.update (fst kv) (snd kv) d"] by (simp add: dom_update)
qed

lemma element_dict_keys: "fst ` set element_dict = set ELEMENTS"
proof -
  have ed: "element_dict = assign_all (zip ELEMENTS ELEMENT_NAMES) []"
    by (simp add: element_dict_def assign_all_def)
  have "fst ` set (zip ELEMENTS ELEMENT_NAMES) = set (map fst (zip ELEMENTS ELEMENT_NAMES))"
    by simp
  also have "\<dots> = set ELEMENTS"
    by (simp add: map_fst_zip_take take_all length_ELEMENTS)
  finally show ?thesis unfolding ed keys_assign_all by simp
qed

lemma distinct_ELEMENTS: "distinct ELEMENTS"
  by code_simp


lemma update_fresh: "k \<notin> fst ` set d \<Longrightarrow> AList.update k v d = d @ [(k, v)]"
  by (induction d) auto

lemma assign_all_fresh:
  "distinct (map fst kvs) \<Longrightarrow> fst ` set kvs \<inter> fst ` set d = {} \<Longrightarrow> assign_all kvs d = d @ kvs"
proof (induction kvs arbitrary: d)
  case Nil
  then show ?case by (simp add: assign_all_def)
next
  case (Cons kv kvs)
  have step: "assign_all (kv # kvs) d = assign_all kvs (AList.update (fst kv) (snd kv) d)"
    by (simp add: assign_all_def split_beta)
  have fresh: "AList.update (fst kv) (snd kv) d = d @ [kv]"
    using Cons.prems(2) by (simp add: update_fresh)
  have "assign_all kvs (d @ [kv]) = (d @ [kv]) @ kvs"
    using Cons.prems by (intro Cons.IH) auto
  then show ?case unfolding step fresh by simp
qed

lemma element_dict_zip: "element_dict = zip ELEMENTS ELEMENT_NAMES"
proof -
  have "distinct (map fst (zip ELEMENTS ELEMENT_NAMES))"
    using distinct_ELEMENTS by (simp add: map_fst_zip_take take_all length_ELEMENTS)
  then have "assign_all (zip ELEMENTS ELEMENT_NAMES) [] = [] @ zip ELEMENTS ELEMENT_NAMES"
    by (intro assign_all_fresh) simp_all
  then show ?thesis by (simp add: element_dict_def assign_all_def)
qed

lemma valence_match_element: "valence_match t = Some (elem, valence) \<Longrightarrow> elem \<in> set ELEMENTS"
  by (auto simp: valence_match_def Let_def split: if_splits)

lemma valence_rewrite_cases:
  "\<exists>t'. valence_rewrite t = Inr t' \<and>
        (case valence_match t of
           None \<Rightarrow> t' = t
         | Some (elem, valence) \<Rightarrow>
             \<exists>elem_name. map_of (zip ELEMENTS ELEMENT_NAMES) elem = Some elem_name \<and>
                         t' = elem_name @ valence)"
proof (cases "valence_match t")
  case None
  then show ?thesis by (simp add: valence_rewrite_def)
next
  case (Some ev)
  obtain elem valence where ev: "ev = (elem, valence)" by (cases ev)
  have "elem \<in> fst ` set element_dict"
    using valence_match_element[of t elem valence] Some ev by (simp add: element_dict_keys)
  then obtain elem_name where "map_of element_dict elem = Some elem_name"
    by (metis domD dom_map_of_conv_image_fst)
  then show ?thesis
    using Some ev by (simp add: valence_rewrite_def element_dict_zip[symmetric])
qed

lemma search_attempt_cong:
  "(\<forall>i. pcp' name i = pcp name i) \<Longrightarrow> search_attempt pcp' name i n = search_attempt pcp name i n"
  by (induction n arbitrary: i) (auto split: reply.splits)

lemma keys_register_lookup:
  "fst ` set (entity_to_cid (register_lookup name c st)) = insert name (fst ` set (entity_to_cid st))"
  by (auto simp: register_lookup_def dom_update split: list.splits option.splits)

lemma entity_to_cid_search_pubchem:
  "entity_to_cid (snd (search_pubchem pcp name n st)) = entity_to_cid st"
  by (simp add: search_pubchem_def split: option.splits)

lemma entity_to_cid_increment_count:
  "increment_count key st = Inr st' \<Longrightarrow> entity_to_cid st' = entity_to_cid st"
  by (auto simp: increment_count_def split: option.splits)

lemma increment_count_error: "increment_count key st = Inl e \<Longrightarrow> e = KeyError"
  by (auto simp: increment_count_def split: option.splits)

text \<open>
  What the resolver does with the valence pattern as the code has it. Resolving a
  recognized entity never fails in the rewriting step: the text \<open>t'\<close> that results is
  the entity's text, or, when \<open>VALENCE_REGX\<close> matches the text,
  the name paired with the element symbol in the element tables followed by the
  parenthesized valence. The name of the mention is \<open>t'\<close> itself when \<open>t'\<close> matches the
  formula pattern, and \<open>t'\<close> lowercased otherwise. That name is the one appended to the
  entity list and the only key added to \<open>entity_to_cid\<close>; the resolution can fail only
  with a \<open>KeyError\<close> on the count of a cached name; and the lookup service is consulted
  at no other name: two services that answer alike for it give the same result.
\<close>

theorem resolve_cem_uses_normalized_name:
  "\<exists>t'. valence_rewrite t = Inr t' \<and>
        (case valence_match t of
           None \<Rightarrow> t' = t
         | Some (elem, valence) \<Rightarrow>
             \<exists>elem_name. map_of (zip ELEMENTS ELEMENT_NAMES) elem = Some elem_name \<and>
                         t' = elem_name @ valence) \<and>
        mention_name t' = (if formula_match t' then t' else lower t') \<and>
        (case resolve_cem pcp attempts (st, entity_list) (t, start, stop) of
           Inl e \<Rightarrow> e = KeyError \<and> mention_name t' \<in> fst ` set (entity_to_cid st)
         | Inr (st', entity_list') \<Rightarrow>
             entity_list' = entity_list @ [(mention_name t', start, stop)] \<and>
             fst ` set (entity_to_cid st')
               = insert (mention_name t') (fst ` set (entity_to_cid st))) \<and>
        (\<forall>pcp'. (\<forall>i. pcp' (mention_name t') i = pcp (mention_name t') i) \<longrightarrow>
           resolve_cem pcp' attempts (st, entity_list) (t, start, stop)
             = resolve_cem pcp attempts (st, entity_list) (t, start, stop))"
proof -
  from valence_rewrite_cases[of t] obtain t' where
    vr: "valence_rewrite t = Inr t'" and
    vc: "case valence_match t of
           None \<Rightarrow> t' = t
         | Some (elem, valence) \<Rightarrow>
             \<exists>elem_name. map_of (zip ELEMENTS ELEMENT_NAMES) elem = Some elem_name \<and>
                         t' = elem_name @ valence"
    by blast
  let ?name = "mention_name t'"
  have res: "case resolve_cem pcp attempts (st, entity_list) (t, start, stop) of
           Inl e \<Rightarrow> e = KeyError \<and> ?name \<in> fst ` set (entity_to_cid st)
         | Inr (st', entity_list') \<Rightarrow>
             entity_list' = entity_list @ [(?name, start, stop)] \<and>
             fst ` set (entity_to_cid st') = insert ?name (fst ` set (entity_to_cid st))"
  proof (cases "map_of (entity_to_cid st) ?name")
    case None
    then show ?thesis
      using entity_to_cid_search_pubchem[of pcp ?name attempts st]
      by (auto simp: vr keys_register_lookup split: prod.splits)
  next
    case (Some entry)
    then have mem: "?name \<in> fst ` set (entity_to_cid st)"
      by (metis domI dom_map_of_conv_image_fst)
    show ?thesis
    proof (cases "increment_count (count_key ?name entry) st")
      case (Inl e)
      then show ?thesis using Some mem increment_count_error[OF Inl] by (simp add: vr)
    next
      case (Inr st')
      then show ?thesis
        using Some mem entity_to_cid_increment_count[OF Inr] by (auto simp: vr)
    qed
  qed
  have ind: "resolve_cem pcp' attempts (st, entity_list) (t, start, stop)
             = resolve_cem pcp attempts (st, entity_list) (t, start, stop)"
    if "\<forall>i. pcp' ?name i = pcp ?name i" for pcp'
    using search_attempt_cong[of pcp' ?name pcp 0 attempts] that
    by (simp add: vr search_pubchem_def split: option.splits)
  have mn: "mention_name t' = (if formula_match t' then t' else lower t')"
    by (simp add: mention_name_def)
  show ?thesis
    using vr vc mn res ind by blast
qed


theorem resolve_cem_uses_normalized_name_witness:
  "valence_rewrite ''Fe(III)'' = Inr ''iron(III)'' \<and>
   mention_name ''iron(III)'' = ''iron(iii)'' \<and>
   (case resolve_cem pubchem_example 10 (fresh, []) (''Fe(III)'', 0, 7) of
      Inl e \<Rightarrow> False
    | Inr (st', entity_list') \<Rightarrow>
        entity_list' = [(''iron(iii)'', 0, 7)] \<and>
        fst ` set (entity_to_cid st') = {''iron(iii)''}) \<and>
   resolve_cem (\<lambda>name i. Compounds []) 10 (fresh, []) (''Fe(III)'', 0, 7)
     = resolve_cem pubchem_example 10 (fresh, []) (''Fe(III)'', 0, 7)"
proof -
  have a: "valence_rewrite ''Fe(III)'' = Inr ''iron(III)''" by code_simp
  have b: "mention_name ''iron(III)'' = ''iron(iii)''" by code_simp
  have c: "pubchem_example ''iron(iii)'' i = Compounds []" for i
    by (simp add: pubchem_example_def)
  from resolve_cem_uses_normalized_name[where t = "''Fe(III)''" and pcp = pubchem_example
      and attempts = 10 and st = fresh and entity_list = "[]" and start = 0 and stop = 7]
  obtain t' where
    vr: "valence_rewrite ''Fe(III)'' = Inr t'" and
    res: "case resolve_cem pubchem_example 10 (fresh, []) (''Fe(III)'', 0, 7) of
           Inl e \<Rightarrow> e = KeyError \<and> mention_name t' \<in> fst ` set (entity_to_cid fresh)
         | Inr (st', entity_list') \<Rightarrow>
             entity_list' = [] @ [(mention_name t', 0, 7)] \<and>
             fst ` set (entity_to_cid st')
               = insert (mention_name t') (fst ` set (entity_to_cid fresh))" and
    ind: "\<forall>pcp'. (\<forall>i. pcp' (mention_name t') i = pubchem_example (mention_name t') i) \<longrightarrow>
           resolve_cem pcp' 10 (fresh, []) (''Fe(III)'', 0, 7)
             = resolve_cem pubchem_example 10 (fresh, []) (''Fe(III)'', 0, 7)"
    by blast
  have t': "t' = ''iron(III)''" using vr a by simp
  have r: "case resolve_cem pubchem_example 10 (fresh, []) (''Fe(III)'', 0, 7) of
      Inl e \<Rightarrow> False
    | Inr (st', entity_list') \<Rightarrow>
        entity_list' = [(''iron(iii)'', 0, 7)] \<and>
        fst ` set (entity_to_cid st') = {''iron(iii)''}"
    using res unfolding t' b by (simp add: fresh_def split: sum.splits prod.splits)
  have i: "resolve_cem (\<lambda>name i. Compounds []) 10 (fresh, []) (''Fe(III)'', 0, 7)
     = resolve_cem pubchem_example 10 (fresh, []) (''Fe(III)'', 0, 7)"
    using ind[rule_format, of "\<lambda>name i. Compounds []"] unfolding t' b by (simp add: c)
  show ?thesis using a b r i by blast
qed

text \<open>
  Claim C7 says that every mention of an element with a Roman-numeral valence in
  parentheses is rewritten to the element's name before it is looked up and cached. The
  code does not do that for the valence IV. \<open>VALENCE_REGX\<close> writes the alternatives
  \<open>IV|iv\<close> between square brackets, which makes them a character class: one of the
  characters \<open>I\<close>, \<open>V\<close>, \<open>|\<close>, \<open>i\<close>, \<open>v\<close>. So \<open>Ti(IV)\<close> and \<open>Sn(iv)\<close> do not match;
  \<open>Ti(IV)\<close> keeps the element symbol and is looked up and cached as \<open>ti(iv)\<close>, while
  \<open>Ti(III)\<close> becomes \<open>titanium(III)\<close> and is looked up as \<open>titanium(iii)\<close>; and the pattern
  accepts \<open>Ti(|)\<close>, which holds no numeral.
\<close>

theorem valence_pattern_misses_IV:
  "valence_match ''Ti(IV)'' = None \<and>
   valence_rewrite ''Ti(IV)'' = Inr ''Ti(IV)'' \<and>
   mention_name ''Ti(IV)'' = ''ti(iv)'' \<and>
   (case resolve_cem pubchem_example 10 (fresh, []) (''Ti(IV)'', 0, 6) of
      Inl e \<Rightarrow> False
    | Inr (st', entity_list') \<Rightarrow>
        entity_list' = [(''ti(iv)'', 0, 6)] \<and>
        entity_to_cid st' = [(''ti(iv)'', (None, None))]) \<and>
   valence_match ''Sn(iv)'' = None \<and>
   valence_rewrite ''Ti(III)'' = Inr ''titanium(III)'' \<and>
   mention_name ''titanium(III)'' = ''titanium(iii)'' \<and>
   valence_rewrite ''Ti(|)'' = Inr ''titanium(|)''"
proof -
  have a: "valence_match ''Ti(IV)'' = None" by code_simp
  have b: "valence_rewrite ''Ti(IV)'' = Inr ''Ti(IV)''" by (simp add: valence_rewrite_def a)
  have c: "mention_name ''Ti(IV)'' = ''ti(iv)''" by code_simp
  have d: "search_attempt pubchem_example ''ti(iv)'' 0 10 = Some []"
    by (simp add: pubchem_example_def numeral_eq_Suc)
  have e: "case resolve_cem pubchem_example 10 (fresh, []) (''Ti(IV)'', 0, 6) of
      Inl e \<Rightarrow> False
    | Inr (st', entity_list') \<Rightarrow>
        entity_list' = [(''ti(iv)'', 0, 6)] \<and>
        entity_to_cid st' = [(''ti(iv)'', (None, None))]"
    by (simp add: b c d fresh_def search_pubchem_def register_lookup_def
          split: prod.splits)
  have f: "valence_match ''Sn(iv)'' = None" by code_simp
  have g: "valence_rewrite ''Ti(III)'' = Inr ''titanium(III)''" by code_simp
  have h: "mention_name ''titanium(III)'' = ''titanium(iii)''" by code_simp
  have i: "valence_rewrite ''Ti(|)'' = Inr ''titanium(|)''" by code_simp
  show ?thesis using a b c e f g h i by blast
qed

subsection \<open>The hard-coded entry for CO\<close>

lemma map_of_assign_all:
  "map_of (assign_all kvs d) k = (case map_of (rev kvs) k of None \<Rightarrow> map_of d k | Some v \<Rightarrow> Some v)"
proof (induction kvs arbitrary: d)
  case Nil
  then show ?case by (simp add: assign_all_def)
next
  case (Cons kv kvs)
  have step: "assign_all (kv # kvs) d = assign_all kvs (AList.update (fst kv) (snd kv) d)"
    by (simp add: assign_all_def split_beta)
  show ?case
    unfolding step Cons.IH
    by (cases kv) (auto simp: update_conv' map_add_def map_of_append split: option.splits)
qed

lemma seed_co_entry: "co_entry (seed st)"
  by (simp add: co_entry_def seed_def map_of_assign_all hardcoded_cids_def)

lemma map_of_register_lookup:
  "k \<noteq> name \<Longrightarrow> map_of (entity_to_cid (register_lookup name c st)) k = map_of (entity_to_cid st) k"
  by (auto simp: register_lookup_def update_conv' split: list.splits option.splits)

lemma resolve_cem_keeps:
  assumes "resolve_cem pcp n (st, el) cem = Inr (st', el')"
      and "map_of (entity_to_cid st) k = Some v"
  shows "map_of (entity_to_cid st') k = Some v"
proof -
  obtain t start stop where cem: "cem = (t, start, stop)" by (cases cem)
  from valence_rewrite_cases[of t] obtain t' where vr: "valence_rewrite t = Inr t'" by blast
  show ?thesis
  proof (cases "map_of (entity_to_cid st) (mention_name t')")
    case None
    then have "k \<noteq> mention_name t'" using assms(2) by auto
    then show ?thesis
      using assms None entity_to_cid_search_pubchem[of pcp "mention_name t'" n st]
      by (auto simp: cem vr map_of_register_lookup split: prod.splits)
  next
    case (Some entry)
    then show ?thesis
      using assms entity_to_cid_increment_count
      by (auto simp: cem vr split: sum.splits)
  qed
qed

lemma resolve_cem_frame:
  assumes "resolve_cem pcp n (st, el) cem = Inr (st', el')"
  shows "entities_per_text st' = entities_per_text st \<and> normalized_texts st' = normalized_texts st"
proof -
  obtain t start stop where cem: "cem = (t, start, stop)" by (cases cem)
  from valence_rewrite_cases[of t] obtain t' where vr: "valence_rewrite t = Inr t'" by blast
  show ?thesis
    using assms
    by (auto simp: cem vr search_pubchem_def register_lookup_def increment_count_def
             split: option.splits sum.splits prod.splits list.splits)
qed

lemma resolve_cems_keeps:
  "resolve_cems pcp n cems (st, el) = Inr (st', el') \<Longrightarrow>
   map_of (entity_to_cid st) k = Some v \<Longrightarrow> map_of (entity_to_cid st') k = Some v"
proof (induction cems arbitrary: st el)
  case Nil
  then show ?case by simp
next
  case (Cons cem cems)
  then show ?case
    by (auto split: sum.splits dest: resolve_cem_keeps)
qed

lemma resolve_cems_frame:
  "resolve_cems pcp n cems (st, el) = Inr (st', el') \<Longrightarrow>
   entities_per_text st' = entities_per_text st \<and> normalized_texts st' = normalized_texts st"
proof (induction cems arbitrary: st el)
  case Nil
  then show ?case by simp
next
  case (Cons cem cems)
  then show ?case
    by (fastforce split: sum.splits dest: resolve_cem_frame)
qed

lemma resolve_cem_indep:
  assumes "co_entry st" and "agree_off_co pcp' pcp"
  shows "resolve_cem pcp' n (st, el) cem = resolve_cem pcp n (st, el) cem"
proof -
  obtain t start stop where cem: "cem = (t, start, stop)" by (cases cem)
  from valence_rewrite_cases[of t] obtain t' where vr: "valence_rewrite t = Inr t'" by blast
  show ?thesis
  proof (cases "map_of (entity_to_cid st) (mention_name t')")
    case None
    then have "mention_name t' \<noteq> ''CO''" using assms(1) by (auto simp: co_entry_def)
    then have "\<forall>i. pcp' (mention_name t') i = pcp (mention_name t') i"
      using assms(2) by (simp add: agree_off_co_def)
    from search_attempt_cong[of pcp' "mention_name t'" pcp 0 n] this
    show ?thesis by (simp add: cem vr None search_pubchem_def)
  next
    case (Some entry)
    then show ?thesis by (simp add: cem vr)
  qed
qed

lemma resolve_cems_indep:
  "co_entry st \<Longrightarrow> agree_off_co pcp' pcp \<Longrightarrow>
   resolve_cems pcp' n cems (st, el) = resolve_cems pcp n cems (st, el)"
proof (induction cems arbitrary: st el)
  case Nil
  then show ?case by simp
next
  case (Cons cem cems)
  have eq: "resolve_cem pcp' n (st, el) cem = resolve_cem pcp n (st, el) cem"
    using Cons.prems by (rule resolve_cem_indep)
  show ?case
  proof (cases "resolve_cem pcp n (st, el) cem")
    case (Inl e)
    then show ?thesis by (simp add: eq)
  next
    case (Inr acc)
    obtain st1 el1 where acc: "acc = (st1, el1)" by (cases acc)
    have "co_entry st1"
      using resolve_cem_keeps[of pcp n st el cem st1 el1 "''CO''"] Inr acc Cons.prems(1)
      by (simp add: co_entry_def)
    then show ?thesis
      using Cons.IH[of st1 el1] Cons.prems(2) by (simp add: eq Inr acc)
  qed
qed


lemma rewrite_entities_records:
  "rewrite_entities wb e2c ms t ic recs0 = Inr (t', c, recs) \<Longrightarrow>
   list_all (\<lambda>(rname, start, stop, name). replacement_name e2c name = Inr rname) recs0 \<Longrightarrow>
   list_all (\<lambda>(rname, start, stop, name). replacement_name e2c name = Inr rname) recs"
proof (induction ms arbitrary: t ic recs0)
  case Nil
  then show ?case by simp
next
  case (Cons m ms)
  obtain name start stop where m: "m = (name, start, stop)" by (cases m)
  show ?case
  proof (cases "replacement_name e2c name")
    case (Inl e)
    then show ?thesis using Cons.prems by (simp add: m)
  next
    case (Inr rname)
    let ?d = "int (length rname) - (stop - start) + (if wb then 8 else 0)"
    let ?t = "py_upto t (start + ic) @ (if wb then bold_on @ rname @ bold_off else rname) @
              py_from t (stop + ic)"
    let ?recs = "recs0 @ [(rname, start + (ic + ?d) - ?d, stop + (ic + ?d), name)]"
    have call: "rewrite_entities wb e2c ms ?t (ic + ?d) ?recs = Inr (t', c, recs)"
      using Cons.prems(1) Inr by (simp add: m Let_def)
    have "list_all (\<lambda>(rname, start, stop, name). replacement_name e2c name = Inr rname) ?recs"
      using Cons.prems(2) Inr by simp
    then show ?thesis by (rule Cons.IH[OF call])
  qed
qed

lemma co_entry_records:
  assumes "co_entry st"
      and "list_all (\<lambda>(rname, start, stop, name). replacement_name (entity_to_cid st) name = Inr rname) recs"
  shows "co_records recs"
proof -
  have "replacement_name (entity_to_cid st) ''CO'' = Inr ''carbon monoxide''"
    using assms(1) by (simp add: co_entry_def replacement_name_def count_key_def)
  then show ?thesis
    using assms(2) by (auto simp: co_records_def list_all_iff)
qed

lemma checkpoint_frame:
  "checkpoint cfg i final st = Inr st' \<Longrightarrow>
   entity_to_cid st' = entity_to_cid st \<and> entities_per_text st' = entities_per_text st \<and>
   normalized_texts st' = normalized_texts st"
  by (auto simp: checkpoint_def split: if_splits)

lemma normalize_text_co:
  assumes "normalize_text doc pcp cfg i final raw st = Inr st'" and "co_entry st"
  shows "co_entry st' \<and>
         (\<exists>recs. co_records recs \<and>
                 entities_per_text st' = AList.update i recs (entities_per_text st))"
proof -
  from assms(1) obtain t1 st1 el t2 ic recs where
    res: "resolve_cems pcp (search_attempts cfg) (snd (doc t1)) (st, []) = Inr (st1, el)" and
    rew: "rewrite_entities (write_bold cfg) (entity_to_cid st1)
            (sort_key (\<lambda>(name, start, stop). start) el) t1 0 [] = Inr (t2, ic, recs)" and
    chk: "checkpoint cfg i final
            (st1\<lparr>entities_per_text := AList.update i recs (entities_per_text st1),
                 normalized_texts := normalized_texts st1 @ [t2]\<rparr>) = Inr st'"
    by (auto simp: normalize_text_def split: sum.splits prod.splits)
  have co1: "co_entry st1"
    using resolve_cems_keeps[OF res, of "''CO''"] assms(2) by (simp add: co_entry_def)
  have fr1: "entities_per_text st1 = entities_per_text st"
    using resolve_cems_frame[OF res] by simp
  have recs: "co_records recs"
    using rewrite_entities_records[OF rew] co_entry_records[OF co1] by simp
  show ?thesis
    using checkpoint_frame[OF chk] co1 fr1 recs by (auto simp: co_entry_def)
qed

lemma normalize_text_indep:
  "co_entry st \<Longrightarrow> agree_off_co pcp' pcp \<Longrightarrow>
   normalize_text doc pcp' cfg i final raw st = normalize_text doc pcp cfg i final raw st"
  by (simp add: normalize_text_def resolve_cems_indep cong: sum.case_cong)

lemma normalize_loop_co:
  "normalize_loop doc pcp cfg i final ts st = Inr st' \<Longrightarrow> co_entry st \<Longrightarrow>
   co_entry st' \<and>
   (\<forall>j<i. map_of (entities_per_text st') j = map_of (entities_per_text st) j) \<and>
   (\<forall>j. i \<le> j \<and> j < i + length ts \<longrightarrow>
        (\<exists>recs. map_of (entities_per_text st') j = Some recs \<and> co_records recs))"
proof (induction ts arbitrary: i st)
  case Nil
  then show ?case by auto
next
  case (Cons raw ts)
  from Cons.prems(1) obtain st1 where
    one: "normalize_text doc pcp cfg i final raw st = Inr st1" and
    rest: "normalize_loop doc pcp cfg (Suc i) final ts st1 = Inr st'"
    by (auto split: sum.splits)
  from normalize_text_co[OF one Cons.prems(2)] obtain recs where
    co1: "co_entry st1" and recs: "co_records recs" and
    ept: "entities_per_text st1 = AList.update i recs (entities_per_text st)"
    by blast
  from Cons.IH[OF rest co1] have
    co': "co_entry st'" and
    old: "\<forall>j<Suc i. map_of (entities_per_text st') j = map_of (entities_per_text st1) j" and
    new: "\<forall>j. Suc i \<le> j \<and> j < Suc i + length ts \<longrightarrow>
            (\<exists>recs. map_of (entities_per_text st') j = Some recs \<and> co_records recs)"
    by blast+
  have a: "\<forall>j<i. map_of (entities_per_text st') j = map_of (entities_per_text st) j"
    using old by (simp add: ept update_conv')
  have b: "\<exists>recs. map_of (entities_per_text st') j = Some recs \<and> co_records recs"
    if "i \<le> j \<and> j < i + length (raw # ts)" for j
  proof (cases "j = i")
    case True
    then show ?thesis using old recs by (simp add: ept update_conv')
  next
    case False
    then show ?thesis using that new by simp
  qed
  show ?case using co' a b by blast
qed

lemma normalize_loop_indep:
  "co_entry st \<Longrightarrow> agree_off_co pcp' pcp \<Longrightarrow>
   normalize_loop doc pcp' cfg i final ts st = normalize_loop doc pcp cfg i final ts st"
proof (induction ts arbitrary: i st)
  case Nil
  then show ?case by simp
next
  case (Cons raw ts)
  have eq: "normalize_text doc pcp' cfg i final raw st = normalize_text doc pcp cfg i final raw st"
    using Cons.prems by (rule normalize_text_indep)
  show ?case
  proof (cases "normalize_text doc pcp cfg i final raw st")
    case (Inl e)
    then show ?thesis by (simp add: eq)
  next
    case (Inr st1)
    then have "co_entry st1" using normalize_text_co[OF Inr Cons.prems(1)] by simp
    then show ?thesis using Cons.IH[of st1 "Suc i"] Cons.prems(2) by (simp add: eq Inr)
  qed
qed

lemma resolve_co:
  assumes "co_entry st"
  shows "resolve_cem pcp n (st, el) (''CO'', start, stop) =
           (case increment_count ''carbon monoxide'' st of
              Inl e \<Rightarrow> Inl e
            | Inr st1 \<Rightarrow> Inr (st1, el @ [(''CO'', start, stop)]))"
proof -
  have a: "valence_rewrite ''CO'' = Inr ''CO''" by code_simp
  have b: "mention_name ''CO'' = ''CO''" by code_simp
  show ?thesis
    using assms by (simp add: a b co_entry_def count_key_def cong: sum.case_cong)
qed

text \<open>
  Claim C6. Let a call of \<open>normalize_chemical_entities\<close> over the texts \<open>ts\<close> return.
  Then \<open>CO\<close> is replaced by \<open>carbon monoxide\<close>; resolving an entity with the text \<open>CO\<close>
  in the resulting state only increments the count of \<open>carbon monoxide\<close> and appends the
  mention under the name \<open>CO\<close>, whatever the lookup service is; in the entity records
  of every text of this call, each mention named \<open>CO\<close> has the replacement name
  \<open>carbon monoxide\<close>; and the call returns the same state with any lookup service that
  answers differently, or not at all, for the name \<open>CO\<close>.
\<close>

theorem carbon_monoxide_override:
  assumes "normalize_chemical_entities doc pcp cfg texts st = Inr st'"
      and "texts = Some ts \<or> (texts = None \<and> clean_texts st = Some ts)"
  shows "replacement_name (entity_to_cid st') ''CO'' = Inr ''carbon monoxide'' \<and>
         (\<forall>pcp' n el start stop.
            resolve_cem pcp' n (st', el) (''CO'', start, stop) =
              (case increment_count ''carbon monoxide'' st' of
                 Inl e \<Rightarrow> Inl e
               | Inr st1 \<Rightarrow> Inr (st1, el @ [(''CO'', start, stop)]))) \<and>
         (\<forall>j. length (normalized_texts st) \<le> j \<and> j < length (normalized_texts st) + length ts \<longrightarrow>
            (\<exists>recs. map_of (entities_per_text st') j = Some recs \<and>
               (\<forall>(rname, start, stop, name) \<in> set recs.
                   name = ''CO'' \<longrightarrow> rname = ''carbon monoxide''))) \<and>
         (\<forall>pcp'. (\<forall>name i. name \<noteq> ''CO'' \<longrightarrow> pcp' name i = pcp name i) \<longrightarrow>
            normalize_chemical_entities doc pcp' cfg texts st = Inr st')"
proof -
  let ?i = "length (normalized_texts st)"
  let ?final = "int (length ts) + int ?i - 1"
  have ts: "(case texts of None \<Rightarrow> clean_texts st | Some given \<Rightarrow> Some given) = Some ts"
    using assms(2) by auto
  have nt: "normalized_texts (seed st) = normalized_texts st" by (simp add: seed_def)
  have unfold: "normalize_chemical_entities doc q cfg texts st
                  = normalize_loop doc q cfg ?i ?final ts (seed st)" for q
    by (simp add: normalize_chemical_entities_def ts)
  have run: "normalize_loop doc pcp cfg ?i ?final ts (seed st) = Inr st'"
    using assms(1) unfolding unfold .
  from normalize_loop_co[OF run seed_co_entry] have
    co': "co_entry st'" and
    new: "\<forall>j. ?i \<le> j \<and> j < ?i + length ts \<longrightarrow>
            (\<exists>recs. map_of (entities_per_text st') j = Some recs \<and> co_records recs)"
    by blast+
  have r: "replacement_name (entity_to_cid st') ''CO'' = Inr ''carbon monoxide''"
    using co' by (simp add: co_entry_def replacement_name_def count_key_def)
  have n: "\<forall>j. ?i \<le> j \<and> j < ?i + length ts \<longrightarrow>
            (\<exists>recs. map_of (entities_per_text st') j = Some recs \<and>
               (\<forall>(rname, start, stop, name) \<in> set recs.
                   name = ''CO'' \<longrightarrow> rname = ''carbon monoxide''))"
    using new by (simp add: co_records_def list_all_iff)
  have i: "normalize_chemical_entities doc pcp' cfg texts st = Inr st'"
    if "\<forall>name i. name \<noteq> ''CO'' \<longrightarrow> pcp' name i = pcp name i" for pcp'
    using normalize_loop_indep[OF seed_co_entry, of pcp' pcp doc cfg ?i ?final ts st] that run
    unfolding unfold by (simp add: agree_off_co_def)
  show ?thesis
    using r n i resolve_co[OF co'] by blast
qed


theorem carbon_monoxide_override_witness:
  "\<exists>st'. normalize_chemical_entities document_example pubchem_example default_settings
            (Some [''CO is toxic'']) fresh = Inr st' \<and>
         normalized_texts st' = [''carbon monoxide is toxic''] \<and>
         map_of (entities_per_text st') 0 = Some [(''carbon monoxide'', 0, 15, ''CO'')] \<and>
         replacement_name (entity_to_cid st') ''CO'' = Inr ''carbon monoxide'' \<and>
         normalize_chemical_entities document_example
            (\<lambda>name i. if name = ''CO'' then Timeout else pubchem_example name i)
            default_settings (Some [''CO is toxic'']) fresh = Inr st'"
proof -
  have "case normalize_chemical_entities document_example pubchem_example default_settings
               (Some [''CO is toxic'']) fresh of
          Inl e \<Rightarrow> False
        | Inr st' \<Rightarrow>
            normalized_texts st' = [''carbon monoxide is toxic''] \<and>
            map_of (entities_per_text st') 0 = Some [(''carbon monoxide'', 0, 15, ''CO'')]"
    by code_simp
  then obtain st' where
    run: "normalize_chemical_entities document_example pubchem_example default_settings
            (Some [''CO is toxic'']) fresh = Inr st'" and
    out: "normalized_texts st' = [''carbon monoxide is toxic'']"
         "map_of (entities_per_text st') 0 = Some [(''carbon monoxide'', 0, 15, ''CO'')]"
    by (auto split: sum.splits)
  have ts: "Some [''CO is toxic''] = Some [''CO is toxic''] \<or>
            (Some [''CO is toxic''] = None \<and> clean_texts fresh = Some [''CO is toxic''])"
    by simp
  from carbon_monoxide_override[OF run ts] have
    r: "replacement_name (entity_to_cid st') ''CO'' = Inr ''carbon monoxide''" and
    i: "\<forall>pcp'. (\<forall>name i. name \<noteq> ''CO'' \<longrightarrow> pcp' name i = pubchem_example name i) \<longrightarrow>
          normalize_chemical_entities document_example pcp' default_settings
            (Some [''CO is toxic'']) fresh = Inr st'"
    by blast+
  have "normalize_chemical_entities document_example
            (\<lambda>name i. if name = ''CO'' then Timeout else pubchem_example name i)
            default_settings (Some [''CO is toxic'']) fresh = Inr st'"
    using i[rule_format, of "\<lambda>name i. if name = ''CO'' then Timeout else pubchem_example name i"]
    by simp
  then show ?thesis using run out r by blast
qed

subsection \<open>Counts and synonyms across a call\<close>

lemma map_of_seed_counts:
  assumes "(k, v) \<in> set e2c"
  shows "map_of (seed_counts e2c counts) (count_key k v) = Some 1"
proof -
  have fold: "map_of (fold (\<lambda>(k, v). AList.update (count_key k v) 1) e2c counts) key
          = (if key \<in> (\<lambda>(k, v). count_key k v) ` set e2c then Some 1 else map_of counts key)"
    for key
  proof (induction e2c arbitrary: counts)
    case Nil
    then show ?case by simp
  next
    case (Cons kv e2c)
    show ?case by (cases kv) (auto simp: Cons.IH update_conv')
  qed
  have "count_key k v \<in> (\<lambda>(k, v). count_key k v) ` set e2c"
    using assms by force
  then show ?thesis by (simp add: seed_counts_def fold)
qed

lemma seed_resets_count:
  "map_of (entity_counts (seed st)) ''carbon monoxide'' = Some 1"
proof -
  have "map_of (assign_all hardcoded_cids (entity_to_cid st)) ''CO''
          = Some (Some 281, Some ''carbon monoxide'')"
    by (simp add: map_of_assign_all hardcoded_cids_def)
  then have "(''CO'', (Some 281, Some ''carbon monoxide''))
               \<in> set (assign_all hardcoded_cids (entity_to_cid st))"
    by (rule map_of_SomeD)
  from map_of_seed_counts[OF this] show ?thesis
    by (simp add: seed_def count_key_def)
qed

lemma seed_resets_synonyms:
  "map_of (entity_to_synonyms (seed st)) ''carbon monoxide'' = Some [''CO'']"
  by (simp add: seed_def map_of_assign_all hardcoded_synonyms_def)

text \<open>
  Claim C4 does not hold of the code. In the text \<open>water water H2O\<close> three mentions
  resolve to \<open>oxidane\<close>, and its count is 1 after the call: the third mention has a new
  name, and line 384 assigns the count 1 to its IUPAC name where the synonym list two
  lines above is extended. \<open>carbon monoxide\<close> has the count 1 with no mention at all:
  lines 328-332 give every name of \<open>entity_to_cid\<close> the count 1 at every call, whatever
  its count was before.
\<close>

theorem entity_counts_are_reset:
  "(case normalize_chemical_entities document_example pubchem_example default_settings
           (Some [''water water H2O'']) fresh of
      Inl e \<Rightarrow> False
    | Inr st \<Rightarrow>
        map_of (entities_per_text st) 0
          = Some [(''oxidane'', 0, 7, ''water''), (''oxidane'', 8, 15, ''water''),
                  (''oxidane'', 16, 23, ''H2O'')] \<and>
        map_of (entity_counts st) ''oxidane'' = Some 1 \<and>
        map_of (entity_counts st) ''carbon monoxide'' = Some 1) \<and>
   map_of (entity_counts (register_lookup name ((cid, Some iupac_name) # others) st)) iupac_name
     = Some 1 \<and>
   map_of (entity_counts (seed st)) ''carbon monoxide'' = Some 1"
proof -
  have "case normalize_chemical_entities document_example pubchem_example default_settings
           (Some [''water water H2O'']) fresh of
      Inl e \<Rightarrow> False
    | Inr st \<Rightarrow>
        map_of (entities_per_text st) 0
          = Some [(''oxidane'', 0, 7, ''water''), (''oxidane'', 8, 15, ''water''),
                  (''oxidane'', 16, 23, ''H2O'')] \<and>
        map_of (entity_counts st) ''oxidane'' = Some 1 \<and>
        map_of (entity_counts st) ''carbon monoxide'' = Some 1"
    by code_simp
  moreover have "map_of (entity_counts (register_lookup name ((cid, Some iupac_name) # others) st))
                   iupac_name = Some 1"
    by (simp add: register_lookup_def update_conv')
  ultimately show ?thesis using seed_resets_count[of st] by blast
qed

lemma synonyms_within_refl: "synonyms_within st st"
  by (simp add: synonyms_within_def)

lemma synonyms_within_trans:
  "synonyms_within st st1 \<Longrightarrow> synonyms_within st1 st2 \<Longrightarrow> synonyms_within st st2"
  unfolding synonyms_within_def by (meson subset_trans)

lemma synonyms_within_eq:
  "entity_to_synonyms st' = entity_to_synonyms st \<Longrightarrow> synonyms_within st st'"
  by (simp add: synonyms_within_def)

lemma register_lookup_synonyms: "synonyms_within st (register_lookup name c st)"
  by (auto simp: synonyms_within_def register_lookup_def update_conv'
           split: list.splits option.splits)

lemma resolve_cem_synonyms:
  assumes "resolve_cem pcp n (st, el) cem = Inr (st', el')"
  shows "synonyms_within st st'"
proof -
  obtain t start stop where cem: "cem = (t, start, stop)" by (cases cem)
  from valence_rewrite_cases[of t] obtain t' where vr: "valence_rewrite t = Inr t'" by blast
  show ?thesis
  proof (cases "map_of (entity_to_cid st) (mention_name t')")
    case None
    have "entity_to_synonyms (snd (search_pubchem pcp (mention_name t') n st))
            = entity_to_synonyms st"
      by (simp add: search_pubchem_def split: option.splits)
    then have "synonyms_within st (snd (search_pubchem pcp (mention_name t') n st))"
      by (rule synonyms_within_eq)
    then show ?thesis
      using assms None register_lookup_synonyms synonyms_within_trans
      by (fastforce simp: cem vr split: prod.splits)
  next
    case (Some entry)
    then show ?thesis
      using assms
      by (auto simp: cem vr increment_count_def synonyms_within_def
               split: sum.splits option.splits)
  qed
qed

lemma resolve_cems_synonyms:
  "resolve_cems pcp n cems (st, el) = Inr (st', el') \<Longrightarrow> synonyms_within st st'"
proof (induction cems arbitrary: st el)
  case Nil
  then show ?case by (simp add: synonyms_within_refl)
next
  case (Cons cem cems)
  then show ?case
    by (fastforce split: sum.splits
          intro: synonyms_within_trans dest: resolve_cem_synonyms)
qed

lemma map_of_remdups_values:
  "map_of (map (\<lambda>(k, v). (k, remdups v)) al) k = map_option remdups (map_of al k)"
  by (induction al) auto

lemma checkpoint_synonyms: "checkpoint cfg i final st = Inr st' \<Longrightarrow> synonyms_within st st'"
  by (auto simp: checkpoint_def synonyms_within_def map_of_remdups_values split: if_splits)

lemma normalize_text_synonyms:
  assumes "normalize_text doc pcp cfg i final raw st = Inr st'"
  shows "synonyms_within st st'"
proof -
  from assms obtain t1 st1 el t2 ic recs where
    res: "resolve_cems pcp (search_attempts cfg) (snd (doc t1)) (st, []) = Inr (st1, el)" and
    chk: "checkpoint cfg i final
            (st1\<lparr>entities_per_text := AList.update i recs (entities_per_text st1),
                 normalized_texts := normalized_texts st1 @ [t2]\<rparr>) = Inr st'"
    by (auto simp: normalize_text_def split: sum.splits prod.splits)
  have "synonyms_within st1
          (st1\<lparr>entities_per_text := AList.update i recs (entities_per_text st1),
               normalized_texts := normalized_texts st1 @ [t2]\<rparr>)"
    by (rule synonyms_within_eq) simp
  then show ?thesis
    using resolve_cems_synonyms[OF res] checkpoint_synonyms[OF chk]
    by (blast intro: synonyms_within_trans)
qed

lemma normalize_loop_synonyms:
  "normalize_loop doc pcp cfg i final ts st = Inr st' \<Longrightarrow> synonyms_within st st'"
proof (induction ts arbitrary: i st)
  case Nil
  then show ?case by (simp add: synonyms_within_refl)
next
  case (Cons raw ts)
  then show ?case
    by (fastforce split: sum.splits
          intro: synonyms_within_trans dest: normalize_text_synonyms)
qed

text \<open>
  Within one call, from the seeding on, no synonym is lost: the lookups only add names,
  and a checkpoint only removes repetitions.
\<close>

lemma synonyms_grow_after_seeding:
  "normalize_chemical_entities doc pcp cfg texts st = Inr st' \<Longrightarrow> synonyms_within (seed st) st'"
  by (auto simp: normalize_chemical_entities_def split: option.splits
           dest: normalize_loop_synonyms)

text \<open>
  Claim C5 does not hold of the code across calls. A first call resolves the mention
  \<open>carbon monoxide\<close> to the IUPAC name \<open>carbon monoxide\<close> and records it as a synonym
  beside \<open>CO\<close>; the next call, here over no text at all, assigns the hard-coded list
  \<open>['CO']\<close> again (lines 324-327) and the recorded synonym is gone. Every call does so,
  from every state.
\<close>

theorem synonyms_are_reset:
  "(case normalize_chemical_entities document_example pubchem_example default_settings
           (Some [''carbon monoxide'']) fresh of
      Inl e \<Rightarrow> False
    | Inr st1 \<Rightarrow>
        map_of (entity_to_synonyms st1) ''carbon monoxide'' = Some [''CO'', ''carbon monoxide''] \<and>
        (case normalize_chemical_entities document_example pubchem_example default_settings
                (Some []) st1 of
           Inl e \<Rightarrow> False
         | Inr st2 \<Rightarrow> map_of (entity_to_synonyms st2) ''carbon monoxide'' = Some [''CO''])) \<and>
   normalize_chemical_entities doc pcp cfg (Some []) st = Inr (seed st) \<and>
   map_of (entity_to_synonyms (seed st)) ''carbon monoxide'' = Some [''CO'']"
proof -
  have "case normalize_chemical_entities document_example pubchem_example default_settings
           (Some [''carbon monoxide'']) fresh of
      Inl e \<Rightarrow> False
    | Inr st1 \<Rightarrow>
        map_of (entity_to_synonyms st1) ''carbon monoxide'' = Some [''CO'', ''carbon monoxide''] \<and>
        (case normalize_chemical_entities document_example pubchem_example default_settings
                (Some []) st1 of
           Inl e \<Rightarrow> False
         | Inr st2 \<Rightarrow> map_of (entity_to_synonyms st2) ''carbon monoxide'' = Some [''CO''])"
    by code_simp
  moreover have "normalize_chemical_entities doc pcp cfg (Some []) st = Inr (seed st)"
    by (simp add: normalize_chemical_entities_def)
  ultimately show ?thesis using seed_resets_synonyms[of st] by blast
qed

subsection \<open>Removing one abbreviation\<close>

lemma length_re_sub_abbv:
  "int (length (re_sub_abbv lit full t))
     = int (length t) + int (count_subs lit t) * (int (length full) - int (length lit))"
proof (induction lit full t rule: re_sub_abbv.induct)
  case (1 lit full)
  then show ?case by simp
next
  case (2 lit full c cs)
  show ?case
  proof (cases "is_space c \<and> take (length lit) cs = lit")
    case False
    then show ?thesis using 2(3)[OF False] by auto
  next
    case True
    then have cs: "cs = lit @ drop (length lit) cs"
      by (metis append_take_drop_id)
    show ?thesis
    proof (cases "drop (length lit) cs")
      case Nil
      then have "length cs = length lit" using cs by (metis append_Nil2)
      then show ?thesis using True Nil by simp
    next
      case (Cons d rest)
      then have len: "length cs = length lit + Suc (length rest)"
        using cs by (metis length_append length_Cons)
      show ?thesis
      proof (cases "is_delim d")
        case d: True
        then show ?thesis using True Cons len 2(1)[OF True Cons d] by (simp add: algebra_simps)
      next
        case d: False
        then show ?thesis using True Cons 2(2)[OF True Cons d] by simp
      qed
    qed
  qed
qed

lemma escape_abbv_plain: "\<forall>c \<in> set a. \<not> regex_syntax c \<Longrightarrow> escape_abbv a = a"
  by (induction a) (auto simp: escape_abbv_def regex_syntax_def)

lemma pattern_literal_plain: "\<forall>c \<in> set a. \<not> regex_syntax c \<Longrightarrow> pattern_literal a = Some a"
  by (induction a) (auto simp: regex_syntax_def)


lemma argmin_singleton: "length xs = 1 \<Longrightarrow> argmin xs = Inr 0"
  by (cases xs) (auto simp: argmin_def)

text \<open>
  What abbreviation removal does with one abbreviation. Let the extractor give one
  abbreviation definition, with an entity type, whose short form has no character of regex syntax and whose long form
  has no backslash; let the earliest recognized entity with the abbreviation's text have
  the span \<open>(s, e)\<close> with \<open>s \<ge> 2\<close>, and let the characters at \<open>s - 1\<close> and \<open>e\<close> be \<open>(\<close> and
  \<open>)\<close>. Then abbreviation removal cuts the characters from \<open>s - 2\<close> to \<open>e\<close> out of the
  text, the parenthetical and the character before it, and then replaces, scanning from
  the left and going on after each match, each whitespace character followed by the
  abbreviation and by one of \<open>. , ;\<close>, whitespace or the end of the text with a space,
  the long form and that delimiter. The length of the result is the original length minus \<open>e - s + 3\<close> plus the
  number of replacements times the difference of the two lengths.
\<close>

theorem remove_single_abbreviation:
  assumes doc: "doc t0 = ([(abbv # others, long, Some ty)], cems)"
      and plain: "\<forall>c \<in> set abbv. \<not> regex_syntax c"
      and full: "CHR 0x5C \<notin> set (join_spaces long)"
      and span: "earliest_span cems abbv = Some (s, e)"
      and pos: "2 \<le> s" "s - 1 < int (length t0)" "0 \<le> e" "e < int (length t0)"
      and paren: "t0 ! nat (s - 1) = CHR ''(''" "t0 ! nat e = CHR '')''"
  shows "remove_abbreviations doc t0
           = Inr (re_sub_abbv abbv (join_spaces long)
                    (take (nat (s - 2)) t0 @ drop (nat (e + 1)) t0)) \<and>
         int (length (re_sub_abbv abbv (join_spaces long)
                        (take (nat (s - 2)) t0 @ drop (nat (e + 1)) t0)))
           = int (length t0) - (e - s + 3)
             + int (count_subs abbv (take (nat (s - 2)) t0 @ drop (nat (e + 1)) t0))
               * (int (length (join_spaces long)) - int (length abbv))"
proof -
  let ?full = "join_spaces long"
  let ?cut = "take (nat (s - 2)) t0 @ drop (nat (e + 1)) t0"
  let ?starts = "cem_starts cems abbv"
  let ?ends = "cem_ends cems abbv"
  have esc: "escape_abbv abbv = abbv" using plain by (rule escape_abbv_plain)
  from span obtain k where k: "argmin ?starts = Inr k" "?starts ! k = s" "?ends ! k = e"
    by (auto simp: earliest_span_def split: sum.splits)
  have low: "low_idx_of ?starts = s" using k by (simp add: low_idx_of_def)
  have dict: "build_abbv_dict cems [(abbv # others, long, Some ty)] [] = Inr [(abbv, ?full, s)]"
    by (simp add: esc low)
  have idx: "(if length ?starts = 1 then Inr 0 else argmin ?starts) = Inr k"
    using k(1) argmin_singleton[of ?starts] by auto
  have del: "delete_definition t0 0 s e = Inr (?cut, s - e - 3)"
  proof -
    have a: "py_get t0 (s + 0 - 1) = Inr (CHR ''('')"
      using pos paren(1) by (simp add: py_get_def)
    have b: "py_get t0 (e + 0) = Inr (CHR '')'')"
      using pos paren(2) by (simp add: py_get_def)
    have u: "py_upto t0 (s - 2 + 0) = take (nat (s - 2)) t0"
      using pos by (simp add: py_upto_take)
    have f: "py_from t0 (e + 1 + 0) = drop (nat (e + 1)) t0"
      using pos by (simp add: py_from_drop)
    show ?thesis unfolding delete_definition_def a b u f by simp
  qed
  have sub: "substitute_abbv abbv ?full ?cut = Inr (re_sub_abbv abbv ?full ?cut)"
    using full by (simp add: substitute_abbv_def pattern_literal_plain[OF plain])
  have step: "abbv_step cems (t0, 0) (abbv, ?full, s) = Inr (re_sub_abbv abbv ?full ?cut, s - e - 3)"
    unfolding abbv_step.simps idx using pos(1) by (simp add: k del sub)
  have run: "remove_abbreviations doc t0 = Inr (re_sub_abbv abbv ?full ?cut)"
    by (simp add: remove_abbreviations_def doc dict step
          del: build_abbv_dict.simps abbv_step.simps)
  have "int (length ?cut) = int (length t0) - (e - s + 3)"
    using pos by (simp add: min_def)
  then have len: "int (length (re_sub_abbv abbv ?full ?cut))
           = int (length t0) - (e - s + 3)
             + int (count_subs abbv ?cut) * (int (length ?full) - int (length abbv))"
    by (simp add: length_re_sub_abbv)
  show ?thesis using run len by blast
qed


theorem remove_single_abbreviation_witness:
  "remove_abbreviations abbreviation_example
     ''dimethylformamide (DMF) was added. DMF is polar; DMF.''
     = Inr ''dimethylformamide was added. dimethylformamide is polar; dimethylformamide.'' \<and>
   int (length ''dimethylformamide was added. dimethylformamide is polar; dimethylformamide.'')
     = int (length ''dimethylformamide (DMF) was added. DMF is polar; DMF.'') - (22 - 19 + 3)
       + 2 * (int (length ''dimethylformamide'') - int (length ''DMF''))"
proof -
  let ?t = "''dimethylformamide (DMF) was added. DMF is polar; DMF.''"
  let ?cems = "[(''dimethylformamide'', 0, 17), (''DMF'', 19, 22), (''DMF'', 35, 38),
                (''DMF'', 49, 52)]"
  have doc: "abbreviation_example ?t = ([(''DMF'' # [], [''dimethylformamide''], Some ''CM'')], ?cems)"
    by (simp add: abbreviation_example_def)
  have plain: "\<forall>c \<in> set ''DMF''. \<not> regex_syntax c"
    by (simp add: regex_syntax_def)
  have full: "CHR 0x5C \<notin> set (join_spaces [''dimethylformamide''])"
    by simp
  have span: "earliest_span ?cems ''DMF'' = Some (19, 22)"
    by (simp add: earliest_span_def cem_starts_def cem_ends_def argmin_def)
  have sub: "re_sub_abbv ''DMF'' (join_spaces [''dimethylformamide''])
               (take (nat (19 - 2)) ?t @ drop (nat (22 + 1)) ?t)
             = ''dimethylformamide was added. dimethylformamide is polar; dimethylformamide.''"
    by code_simp
  from remove_single_abbreviation[where doc = abbreviation_example
         and ?t0.0 = "''dimethylformamide (DMF) was added. DMF is polar; DMF.''",
         OF doc plain full span]
  have "remove_abbreviations abbreviation_example ?t
          = Inr (re_sub_abbv ''DMF'' (join_spaces [''dimethylformamide''])
                   (take (nat (19 - 2)) ?t @ drop (nat (22 + 1)) ?t))"
    by simp
  then show ?thesis unfolding sub by simp
qed

text \<open>
  An abbreviation definition without an entity type is skipped (line 494), as is one
  that no recognized entity matches: the text with \<open>(NMR)\<close> comes back unchanged.
\<close>

lemma untyped_abbreviation_is_skipped:
  "remove_abbreviations
     (\<lambda>t. ([([''NMR''], [''nuclear'', ''magnetic'', ''resonance''], None)], []))
     ''nuclear magnetic resonance (NMR) spectra. NMR is used.''
     = Inr ''nuclear magnetic resonance (NMR) spectra. NMR is used.''"
  by code_simp

text \<open>
  Claim C8 says that the defining parenthetical is deleted and every later whole-word
  occurrence of the abbreviation is replaced with the full form, which is also what the
  function's description says (\<open>the rest are replaced with the full name\<close>). The code does
  not do that.
  \<^item> Of two occurrences separated by one space only the first is replaced: the
    substitution of line 540 takes the space after the first occurrence as its closing
    delimiter, and the scan goes on behind it, where the second occurrence has no
    whitespace before it left. In \<open>dimethylformamide (DMF) and DMF DMF.\<close> the definition is
    followed by two occurrences; one is replaced, and the length is the original one minus
    6 plus once, not twice, the difference of the lengths.
  \<^item> With two abbreviations the parenthetical of the second stays. \<open>index_change\<close> follows
    the deletion of the first parenthetical and not the substitutions of the first
    abbreviation (\<open>replacement_delta\<close> of line 518 is computed and never used), so the
    test for \<open>(\<close> and \<open>)\<close> around the second reads other characters.
\<close>

theorem remove_abbreviations_misses_occurrences:
  "remove_abbreviations
     (\<lambda>t. ([([''DMF''], [''dimethylformamide''], Some ''CM'')],
           [(''dimethylformamide'', 0, 17), (''DMF'', 19, 22), (''DMF'', 28, 31),
            (''DMF'', 32, 35)]))
     ''dimethylformamide (DMF) and DMF DMF.''
     = Inr ''dimethylformamide and dimethylformamide DMF.'' \<and>
   int (length ''dimethylformamide and dimethylformamide DMF.'')
     = int (length ''dimethylformamide (DMF) and DMF DMF.'') - 6
       + 1 * (int (length ''dimethylformamide'') - int (length ''DMF'')) \<and>
   remove_abbreviations
     (\<lambda>t. ([([''DMF''], [''dimethylformamide''], Some ''CM''),
            ([''THF''], [''tetrahydrofuran''], Some ''CM'')],
           [(''dimethylformamide'', 0, 17), (''DMF'', 19, 22), (''DMF'', 28, 31),
            (''tetrahydrofuran'', 37, 52), (''THF'', 54, 57), (''THF'', 63, 66)]))
     ''dimethylformamide (DMF) and DMF with tetrahydrofuran (THF) and THF.''
     = Inr ''dimethylformamide and dimethylformamide with tetrahydrofuran (THF) and tetrahydrofuran.''"
  by code_simp

end
